theory Spec2Isabelle
  imports Complex_Main
begin

section \<open>The C \<^verbatim>\<open>double\<close>\<close>

text \<open>
  Timestamps in seconds, gaps and segment bounds are C \<^verbatim>\<open>double\<close>s. Their arithmetic is
  not exact and has infinities and NaN, so nothing of it is fixed here: the type \<open>'f\<close> of
  the doubles and their operations are parameters of every function below, collected in
  one record. \<open>d_add\<close>, \<open>d_sub\<close>, \<open>d_mul\<close>, \<open>d_div\<close> are \<^verbatim>\<open>+\<close>, \<^verbatim>\<open>-\<close>, \<^verbatim>\<open>*\<close>, \<^verbatim>\<open>/\<close>; \<open>d_abs\<close> is
  \<^verbatim>\<open>fabs\<close>; \<open>d_lt\<close> and \<open>d_le\<close> are \<^verbatim>\<open><\<close> and \<^verbatim>\<open><=\<close>; \<open>d_of_int\<close> is the conversion of an
  integer to \<^verbatim>\<open>double\<close>; \<open>d_to_int\<close> is the conversion of a \<^verbatim>\<open>double\<close> to \<^verbatim>\<open>int64_t\<close>, which
  is undefined in C when the value is NaN or outside \<^verbatim>\<open>int64_t\<close>: \<open>None\<close> there.
\<close>

record 'f double_ops =
  d_add :: "'f \<Rightarrow> 'f \<Rightarrow> 'f"
  d_sub :: "'f \<Rightarrow> 'f \<Rightarrow> 'f"
  d_mul :: "'f \<Rightarrow> 'f \<Rightarrow> 'f"
  d_div :: "'f \<Rightarrow> 'f \<Rightarrow> 'f"
  d_abs :: "'f \<Rightarrow> 'f"
  d_lt :: "'f \<Rightarrow> 'f \<Rightarrow> bool"
  d_le :: "'f \<Rightarrow> 'f \<Rightarrow> bool"
  d_of_int :: "int \<Rightarrow> 'f"
  d_to_int :: "'f \<Rightarrow> int option"

text \<open>\<^verbatim>\<open>a > b\<close> is \<^verbatim>\<open>b < a\<close> and \<^verbatim>\<open>a >= b\<close> is \<^verbatim>\<open>b <= a\<close>.\<close>

definition d_gt :: "'f double_ops \<Rightarrow> 'f \<Rightarrow> 'f \<Rightarrow> bool" where
  "d_gt ops a b = d_lt ops b a"

definition d_ge :: "'f double_ops \<Rightarrow> 'f \<Rightarrow> 'f \<Rightarrow> bool" where
  "d_ge ops a b = d_le ops b a"

text \<open>A double is a number when it is not NaN, that is when \<^verbatim>\<open>x <= x\<close> holds.\<close>

definition is_number :: "'f double_ops \<Rightarrow> 'f \<Rightarrow> bool" where
  "is_number ops x = d_le ops x x"

text \<open>
  The laws of IEEE 754 comparison that the theorems use: \<^verbatim>\<open><=\<close> is transitive, holds
  between numbers only and is total on them, and \<^verbatim>\<open><\<close> is its strict part. Every
  comparison with NaN is false.
\<close>

definition ieee_order :: "'f double_ops \<Rightarrow> bool" where
  "ieee_order ops =
     ((\<forall>a b c. d_le ops a b \<and> d_le ops b c \<longrightarrow> d_le ops a c)
      \<and> (\<forall>a b. d_le ops a b \<longrightarrow> d_le ops a a \<and> d_le ops b b)
      \<and> (\<forall>a b. d_le ops a a \<and> d_le ops b b \<longrightarrow> d_le ops a b \<or> d_le ops b a)
      \<and> (\<forall>a b. d_lt ops a b = (d_le ops a b \<and> \<not> d_le ops b a)))"

text \<open>
  The laws of correctly rounded IEEE 754 arithmetic that the theorem on the order of the
  selector's output uses. Zero is a number. A difference \<open>a - c\<close> with \<open>c < a\<close> is at least
  zero. Subtracting the same value, adding to the same value and dividing by the same
  positive value are monotone wherever both results are numbers. Adding a value that is
  at least zero to a value that is at least zero does not go below it. An operation with
  a NaN operand gives NaN. The conversion to \<^verbatim>\<open>int64_t\<close> is defined on numbers only and is
  monotone where it is defined.
\<close>

definition ieee_arith :: "'f double_ops \<Rightarrow> bool" where
  "ieee_arith ops =
     (d_le ops (d_of_int ops 0) (d_of_int ops 0)
      \<and> (\<forall>a c. d_lt ops c a \<longrightarrow> d_le ops (d_of_int ops 0) (d_sub ops a c))
      \<and> (\<forall>a b c. d_le ops a b \<and> is_number ops (d_sub ops a c) \<and> is_number ops (d_sub ops b c)
            \<longrightarrow> d_le ops (d_sub ops a c) (d_sub ops b c))
      \<and> (\<forall>a x. d_le ops (d_of_int ops 0) a \<and> d_le ops (d_of_int ops 0) x
            \<longrightarrow> d_le ops a (d_add ops a x))
      \<and> (\<forall>a x y. d_le ops x y \<and> is_number ops (d_add ops a x) \<and> is_number ops (d_add ops a y)
            \<longrightarrow> d_le ops (d_add ops a x) (d_add ops a y))
      \<and> (\<forall>x y c. d_le ops x y \<and> d_lt ops (d_of_int ops 0) c
                  \<and> is_number ops (d_div ops x c) \<and> is_number ops (d_div ops y c)
            \<longrightarrow> d_le ops (d_div ops x c) (d_div ops y c))
      \<and> (\<forall>a b. is_number ops (d_add ops a b) \<longrightarrow> is_number ops a \<and> is_number ops b)
      \<and> (\<forall>a b. is_number ops (d_sub ops a b) \<longrightarrow> is_number ops a \<and> is_number ops b)
      \<and> (\<forall>a b. is_number ops (d_div ops a b) \<longrightarrow> is_number ops a \<and> is_number ops b)
      \<and> (\<forall>x i. d_to_int ops x = Some i \<longrightarrow> is_number ops x)
      \<and> (\<forall>x y i j. d_to_int ops x = Some i \<and> d_to_int ops y = Some j \<and> d_le ops x y
            \<longrightarrow> i \<le> j))"

text \<open>
  Exact arithmetic on the reals, for the concrete scenarios. It is the arithmetic of the
  doubles wherever the operands and the result are representable and no divisor is zero;
  the scenarios below use such values only (small integers and halves, and a tolerance
  that is a power of two). The conversion to \<^verbatim>\<open>int64_t\<close> truncates towards zero and is
  defined inside the range of \<^verbatim>\<open>int64_t\<close>.
\<close>

definition double_to_int64 :: "real \<Rightarrow> int option" where
  "double_to_int64 x =
     (if x \<ge> 0
      then (if \<lfloor>x\<rfloor> \<le> 9223372036854775807 then Some \<lfloor>x\<rfloor> else None)
      else (if - 9223372036854775808 \<le> \<lceil>x\<rceil> then Some \<lceil>x\<rceil> else None))"

definition real_ops :: "real double_ops" where
  "real_ops =
     \<lparr>d_add = (\<lambda>a b. a + b), d_sub = (\<lambda>a b. a - b), d_mul = (\<lambda>a b. a * b),
      d_div = (\<lambda>a b. a / b), d_abs = (\<lambda>a. \<bar>a\<bar>),
      d_lt = (\<lambda>a b. a < b), d_le = (\<lambda>a b. a \<le> b),
      d_of_int = real_of_int,
      d_to_int = double_to_int64\<rparr>"

text \<open>
  The doubles with their special values, for the scenarios in which one arises: a finite
  value, plus or minus infinity, or NaN. Finite arithmetic is exact, so this is the
  arithmetic of the doubles wherever the finite operands and results are representable;
  the special values follow IEEE 754: a nonzero finite value divided by zero is an
  infinity, \<^verbatim>\<open>0.0 / 0.0\<close>, \<^verbatim>\<open>inf - inf\<close>, \<^verbatim>\<open>0 * inf\<close> and \<^verbatim>\<open>inf / inf\<close> are NaN, every
  operation on NaN gives NaN and every comparison with NaN is false. The zero is the
  positive zero.
\<close>

datatype xdouble = Finite real | PInf | NInf | NaN

fun xd_neg :: "xdouble \<Rightarrow> xdouble" where
  "xd_neg (Finite a) = Finite (- a)"
| "xd_neg PInf = NInf"
| "xd_neg NInf = PInf"
| "xd_neg NaN = NaN"

fun xd_add :: "xdouble \<Rightarrow> xdouble \<Rightarrow> xdouble" where
  "xd_add (Finite a) (Finite b) = Finite (a + b)"
| "xd_add (Finite a) PInf = PInf"
| "xd_add (Finite a) NInf = NInf"
| "xd_add PInf (Finite b) = PInf"
| "xd_add PInf PInf = PInf"
| "xd_add NInf (Finite b) = NInf"
| "xd_add NInf NInf = NInf"
| "xd_add PInf NInf = NaN"
| "xd_add NInf PInf = NaN"
| "xd_add NaN y = NaN"
| "xd_add x NaN = NaN"

definition xd_sub :: "xdouble \<Rightarrow> xdouble \<Rightarrow> xdouble" where
  "xd_sub x y = xd_add x (xd_neg y)"

text \<open>An infinity of the sign of \<open>a\<close>, for a nonzero \<open>a\<close>.\<close>

definition xd_inf :: "real \<Rightarrow> xdouble" where
  "xd_inf a = (if a > 0 then PInf else NInf)"

fun xd_mul :: "xdouble \<Rightarrow> xdouble \<Rightarrow> xdouble" where
  "xd_mul (Finite a) (Finite b) = Finite (a * b)"
| "xd_mul (Finite a) PInf = (if a = 0 then NaN else xd_inf a)"
| "xd_mul (Finite a) NInf = (if a = 0 then NaN else xd_inf (- a))"
| "xd_mul PInf (Finite b) = (if b = 0 then NaN else xd_inf b)"
| "xd_mul NInf (Finite b) = (if b = 0 then NaN else xd_inf (- b))"
| "xd_mul PInf PInf = PInf"
| "xd_mul NInf NInf = PInf"
| "xd_mul PInf NInf = NInf"
| "xd_mul NInf PInf = NInf"
| "xd_mul NaN y = NaN"
| "xd_mul x NaN = NaN"

fun xd_div :: "xdouble \<Rightarrow> xdouble \<Rightarrow> xdouble" where
  "xd_div (Finite a) (Finite b) =
     (if b \<noteq> 0 then Finite (a / b) else if a = 0 then NaN else xd_inf a)"
| "xd_div (Finite a) PInf = Finite 0"
| "xd_div (Finite a) NInf = Finite 0"
| "xd_div PInf (Finite b) = (if b \<ge> 0 then PInf else NInf)"
| "xd_div NInf (Finite b) = (if b \<ge> 0 then NInf else PInf)"
| "xd_div PInf PInf = NaN"
| "xd_div PInf NInf = NaN"
| "xd_div NInf PInf = NaN"
| "xd_div NInf NInf = NaN"
| "xd_div NaN y = NaN"
| "xd_div x NaN = NaN"

fun xd_abs :: "xdouble \<Rightarrow> xdouble" where
  "xd_abs (Finite a) = Finite \<bar>a\<bar>"
| "xd_abs PInf = PInf"
| "xd_abs NInf = PInf"
| "xd_abs NaN = NaN"

fun xd_le :: "xdouble \<Rightarrow> xdouble \<Rightarrow> bool" where
  "xd_le (Finite a) (Finite b) = (a \<le> b)"
| "xd_le (Finite a) PInf = True"
| "xd_le (Finite a) NInf = False"
| "xd_le PInf (Finite b) = False"
| "xd_le PInf PInf = True"
| "xd_le PInf NInf = False"
| "xd_le NInf (Finite b) = True"
| "xd_le NInf PInf = True"
| "xd_le NInf NInf = True"
| "xd_le NaN y = False"
| "xd_le x NaN = False"

definition xd_lt :: "xdouble \<Rightarrow> xdouble \<Rightarrow> bool" where
  "xd_lt x y = (xd_le x y \<and> \<not> xd_le y x)"

fun xd_to_int :: "xdouble \<Rightarrow> int option" where
  "xd_to_int (Finite a) = double_to_int64 a"
| "xd_to_int PInf = None"
| "xd_to_int NInf = None"
| "xd_to_int NaN = None"

definition xdouble_ops :: "xdouble double_ops" where
  "xdouble_ops =
     \<lparr>d_add = xd_add, d_sub = xd_sub, d_mul = xd_mul, d_div = xd_div, d_abs = xd_abs,
      d_lt = xd_lt, d_le = xd_le,
      d_of_int = (\<lambda>i. Finite (real_of_int i)),
      d_to_int = xd_to_int\<rparr>"

section \<open>Shared libavutil / libavfilter vocabulary\<close>

text \<open>
  The two filters of this development (\<^verbatim>\<open>f_fixpts.c\<close>, the timestamp stabilizer, and the
  segment selector with its \<^verbatim>\<open>EditingContext\<close>) use a handful of libavutil types. Only the
  fields the filters read or write are kept.
\<close>

record AVRational =
  num :: int
  den :: int

text \<open>\<^verbatim>\<open>av_q2d(a)\<close> is \<^verbatim>\<open>a.num / (double) a.den\<close>.\<close>

definition av_q2d :: "'f double_ops \<Rightarrow> AVRational \<Rightarrow> 'f" where
  "av_q2d ops a = d_div ops (d_of_int ops (num a)) (d_of_int ops (den a))"

datatype AVMediaType = AVMEDIA_TYPE_VIDEO | AVMEDIA_TYPE_AUDIO

record AVFrame =
  pts :: int
  nb_samples :: int

record AVFilterLink =
  link_type :: AVMediaType
  frame_rate :: AVRational
  sample_rate :: int
  time_base :: AVRational

text \<open>
  Modelled from the spec: the error codes are macros of \<^verbatim>\<open>libavutil/error.h\<close> and
  \<^verbatim>\<open>errno.h\<close>, which are not among the source files. The spec calls \<^verbatim>\<open>AVERROR(EINVAL)\<close> the
  configuration, discontinuity and capacity-violation error, \<^verbatim>\<open>AVERROR(ENOMEM)\<close> resource
  exhaustion and \<^verbatim>\<open>AVERROR_EOF\<close> end-of-stream; success is 0. The numbers are the ones of
  libavutil on POSIX (\<^verbatim>\<open>AVERROR(e) = -e\<close>, \<^verbatim>\<open>AVERROR_EOF = -MKTAG('E','O','F',' ')\<close>).
\<close>

definition EINVAL :: int where "EINVAL = 22"
definition ENOMEM :: int where "ENOMEM = 12"

definition AVERROR :: "int \<Rightarrow> int" where
  "AVERROR e = - e"

definition AVERROR_EOF :: int where
  "AVERROR_EOF = - 541478725"

text \<open>
  A stage (its private context \<open>priv\<close>) together with what it has done to the outside:
  \<open>freed\<close> logs every \<^verbatim>\<open>av_frame_free\<close>, \<open>sent\<close> every frame handed to \<^verbatim>\<open>ff_filter_frame\<close>, in
  order, and \<open>dst\<close> is the state of the downstream filter. The downstream
  \<^verbatim>\<open>ff_filter_frame(outlink, frame)\<close> is a parameter \<open>ff\<close> of the model: from the downstream
  state and the frame it gives the return code and the new downstream state.
\<close>

record ('c, 'd) world =
  priv :: 'c
  freed :: "AVFrame list"
  sent :: "AVFrame list"
  dst :: 'd

type_synonym 'd filter_frame_fn = "'d \<Rightarrow> AVFrame \<Rightarrow> int \<times> 'd"

text \<open>The timestamp of a frame in seconds, \<^verbatim>\<open>frame->pts * av_q2d(inlink->time_base)\<close>.\<close>

definition frame_ts :: "'f double_ops \<Rightarrow> AVFilterLink \<Rightarrow> AVFrame \<Rightarrow> 'f" where
  "frame_ts ops inlink frame =
     d_mul ops (d_of_int ops (pts frame)) (av_q2d ops (time_base inlink))"

section \<open>The timestamp stabilizer (\<^verbatim>\<open>f_fixpts.c\<close>)\<close>

text \<open>
  \<^verbatim>\<open>FixPtsContext\<close>. The \<^verbatim>\<open>AVFifoBuffer\<close> of frame pointers is the list of the queued frames,
  oldest first. The fifo counts bytes: every entry is one \<^verbatim>\<open>AVFrame *\<close> of
  \<^verbatim>\<open>sizeof(AVFrame *)\<close> bytes, and \<^verbatim>\<open>av_fifo_size\<close>, \<^verbatim>\<open>av_fifo_drain\<close> and the scan offsets
  are byte counts, as in the source. Sizes are naturals; the option range of \<^verbatim>\<open>bufsize\<close>
  (1 to \<^verbatim>\<open>UINT32_MAX\<close>) keeps \<^verbatim>\<open>maxbufsize\<close> inside \<^verbatim>\<open>size_t\<close>.
\<close>

record 'f FixPtsContext =
  bufsize :: nat
  maxbufsize :: nat
  last_ts :: 'f
  last_nb_samples :: int
  tolerance :: 'f
  fifo :: "AVFrame list"

definition sizeof_frame :: nat where
  "sizeof_frame = 8"

definition av_fifo_size :: "AVFrame list \<Rightarrow> nat" where
  "av_fifo_size q = sizeof_frame * length q"

definition av_fifo_drain :: "AVFrame list \<Rightarrow> nat \<Rightarrow> AVFrame list" where
  "av_fifo_drain q n = drop (n div sizeof_frame) q"

type_synonym ('f, 'd) fixpts_world = "('f FixPtsContext, 'd) world"

text \<open>
  The expected interval \<^verbatim>\<open>frame_ti\<close>: \<^verbatim>\<open>1.0 / av_q2d(inlink->frame_rate)\<close> for video,
  \<^verbatim>\<open>1.0 / inlink->sample_rate * fixpts->last_nb_samples\<close> for audio.
\<close>

definition frame_ti :: "'f double_ops \<Rightarrow> AVFilterLink \<Rightarrow> 'f FixPtsContext \<Rightarrow> 'f" where
  "frame_ti ops inlink fixpts =
     (if link_type inlink = AVMEDIA_TYPE_VIDEO
      then d_div ops (d_of_int ops 1) (av_q2d ops (frame_rate inlink))
      else d_mul ops (d_div ops (d_of_int ops 1) (d_of_int ops (sample_rate inlink)))
                     (d_of_int ops (last_nb_samples fixpts)))"

text \<open>
  The gap of a frame,
  \<^verbatim>\<open>fabs(fixpts->last_ts - frame->pts * av_q2d(inlink->time_base) + frame_ti)\<close>.
\<close>

definition frame_gap :: "'f double_ops \<Rightarrow> AVFilterLink \<Rightarrow> 'f FixPtsContext \<Rightarrow> AVFrame \<Rightarrow> 'f" where
  "frame_gap ops inlink fixpts frame =
     d_abs ops (d_add ops (d_sub ops (last_ts fixpts) (frame_ts ops inlink frame))
                          (frame_ti ops inlink fixpts))"

text \<open>
  The scan loop \<^verbatim>\<open>for (i = 0; i < fifo_size; i += sizeof(frame))\<close>. The list argument is the
  part of the fifo from byte offset \<open>i\<close> on, so its head is \<^verbatim>\<open>*av_fifo_peek2(fifo, i)\<close>; the
  result is the final \<^verbatim>\<open>(drain_size, best_gap)\<close>.
\<close>

fun scan_fifo ::
  "'f double_ops \<Rightarrow> (AVFrame \<Rightarrow> 'f) \<Rightarrow> AVFrame list \<Rightarrow> nat \<Rightarrow> nat \<Rightarrow> 'f \<Rightarrow> nat \<times> 'f" where
  "scan_fifo ops gap [] i drain_size best_gap = (drain_size, best_gap)"
| "scan_fifo ops gap (cached # cs) i drain_size best_gap =
     (if d_lt ops (gap cached) best_gap
      then scan_fifo ops gap cs (i + sizeof_frame) i (gap cached)
      else scan_fifo ops gap cs (i + sizeof_frame) drain_size best_gap)"

text \<open>The label \<^verbatim>\<open>submit_and_exit\<close>: the two registers are written, then the frame is sent.\<close>

definition submit_and_exit ::
  "'f double_ops \<Rightarrow> 'd filter_frame_fn \<Rightarrow> AVFilterLink \<Rightarrow> ('f, 'd) fixpts_world \<Rightarrow> AVFrame
     \<Rightarrow> int \<times> ('f, 'd) fixpts_world" where
  "submit_and_exit ops ff inlink w frame =
     (case ff (dst w) frame of
        (ret, d') \<Rightarrow>
          (ret, w\<lparr>priv := (priv w)\<lparr>last_ts := frame_ts ops inlink frame,
                                   last_nb_samples := nb_samples frame\<rparr>,
                 sent := sent w @ [frame],
                 dst := d'\<rparr>))"

text \<open>
  \<^verbatim>\<open>process_next_frame\<close>, the resolution step. \<^verbatim>\<open>av_fifo_generic_read\<close> on an empty fifo reads
  no frame at all (undefined behaviour in C): the model returns \<open>None\<close> there.
\<close>

definition process_next_frame ::
  "'f double_ops \<Rightarrow> 'd filter_frame_fn \<Rightarrow> AVFilterLink \<Rightarrow> ('f, 'd) fixpts_world
     \<Rightarrow> (int \<times> ('f, 'd) fixpts_world) option" where
  "process_next_frame ops ff inlink w =
     (case fifo (priv w) of
        [] \<Rightarrow> None
      | frame # rest \<Rightarrow>
          let fixpts = priv w;
              w1 = w\<lparr>priv := fixpts\<lparr>fifo := rest\<rparr>\<rparr>;
              fgap = frame_gap ops inlink fixpts frame
          in if d_lt ops fgap (tolerance fixpts)
             then Some (submit_and_exit ops ff inlink w1 frame)
             else
               (case scan_fifo ops (frame_gap ops inlink fixpts) rest 0 0 fgap of
                  (drain_size, best_gap) \<Rightarrow>
                    if d_ge ops best_gap fgap
                    then Some (submit_and_exit ops ff inlink w1 frame)
                    else Some (0, w1\<lparr>priv := fixpts\<lparr>fifo := av_fifo_drain rest drain_size\<rparr>,
                                     freed := freed w @ take (drain_size div sizeof_frame) rest
                                                @ [frame]\<rparr>)))"

text \<open>
  \<^verbatim>\<open>filter_frame\<close> of the stabilizer. The value of \<^verbatim>\<open>process_next_frame\<close> is dropped by the
  source (\<^verbatim>\<open>ret\<close> stays 0). When the fifo is already at \<^verbatim>\<open>maxbufsize\<close> the frame is neither
  queued nor freed.
\<close>

definition fixpts_filter_frame ::
  "'f double_ops \<Rightarrow> 'd filter_frame_fn \<Rightarrow> AVFilterLink \<Rightarrow> ('f, 'd) fixpts_world \<Rightarrow> AVFrame
     \<Rightarrow> (int \<times> ('f, 'd) fixpts_world) option" where
  "fixpts_filter_frame ops ff inlink w frame =
     (let ret = 0;
          w1 = (if av_fifo_size (fifo (priv w)) < maxbufsize (priv w)
                then w\<lparr>priv := (priv w)\<lparr>fifo := fifo (priv w) @ [frame]\<rparr>\<rparr>
                else w);
          r2 = (if av_fifo_size (fifo (priv w1)) = maxbufsize (priv w1)
                then map_option snd (process_next_frame ops ff inlink w1)
                else Some w1)
      in case r2 of
           None \<Rightarrow> None
         | Some w2 \<Rightarrow>
             if av_fifo_size (fifo (priv w2)) > maxbufsize (priv w2)
             then Some (AVERROR EINVAL, w2)
             else Some (ret, w2))"

text \<open>
  The flush loop of \<^verbatim>\<open>request_frame\<close>:
  \<^verbatim>\<open>while (av_fifo_size(fifo) > 0) { process_next_frame(...); if (ret != 0) return ret; }\<close>.
  \<open>ret\<close> is the value of the upstream pull; the loop never assigns it.
\<close>

function flush_loop ::
  "'f double_ops \<Rightarrow> 'd filter_frame_fn \<Rightarrow> AVFilterLink \<Rightarrow> int \<Rightarrow> ('f, 'd) fixpts_world
     \<Rightarrow> (int \<times> ('f, 'd) fixpts_world) option" where
  "flush_loop ops ff inlink ret w =
     (if av_fifo_size (fifo (priv w)) > 0
      then (case process_next_frame ops ff inlink w of
              None \<Rightarrow> None
            | Some rw \<Rightarrow>
                if ret \<noteq> 0 then Some (ret, snd rw) else flush_loop ops ff inlink ret (snd rw))
      else Some (0, w))"
  by pat_completeness auto
termination
proof (relation "measure (\<lambda>(ops, ff, inlink, ret, w). length (fifo (priv w)))")
  show "wf (measure (\<lambda>(ops :: 'f double_ops, ff :: 'd filter_frame_fn, inlink :: AVFilterLink,
                        ret :: int, w :: ('f, 'd) fixpts_world). length (fifo (priv w))))"
    by simp
next
  fix ops :: "'f double_ops" and ff :: "'d filter_frame_fn" and inlink :: AVFilterLink
    and ret :: int and w :: "('f, 'd) fixpts_world" and rw
  assume "process_next_frame ops ff inlink w = Some rw"
  then have "length (fifo (priv (snd rw))) < length (fifo (priv w))"
    by (auto simp: process_next_frame_def submit_and_exit_def av_fifo_drain_def Let_def
             split: list.splits prod.splits if_splits)
  then show "((ops, ff, inlink, ret, snd rw), (ops, ff, inlink, ret, w))
               \<in> measure (\<lambda>(ops, ff, inlink, ret, w). length (fifo (priv w)))"
    by simp
qed

text \<open>
  \<^verbatim>\<open>request_frame\<close> of the stabilizer. \<^verbatim>\<open>ff_request_frame(outlink->src->inputs[0])\<close> is the
  parameter \<open>pull\<close>: the upstream pull, with whatever frames it delivers to this stage
  while it runs, as a step on the world that also gives the pull's return code.
\<close>

definition fixpts_request_frame ::
  "'f double_ops \<Rightarrow> 'd filter_frame_fn \<Rightarrow> AVFilterLink
     \<Rightarrow> (('f, 'd) fixpts_world \<Rightarrow> (int \<times> ('f, 'd) fixpts_world) option)
     \<Rightarrow> ('f, 'd) fixpts_world \<Rightarrow> (int \<times> ('f, 'd) fixpts_world) option" where
  "fixpts_request_frame ops ff inlink pull w =
     (case pull w of
        None \<Rightarrow> None
      | Some (ret, w1) \<Rightarrow>
          if ret \<noteq> AVERROR_EOF \<or> av_fifo_size (fifo (priv w1)) = 0 then Some (ret, w1)
          else flush_loop ops ff inlink ret w1)"

text \<open>
  \<^verbatim>\<open>init\<close> of the stabilizer, from the two options. \<open>alloc_ok\<close> says whether
  \<^verbatim>\<open>av_fifo_alloc\<close> returned a buffer.
\<close>

definition fixpts_init :: "'f double_ops \<Rightarrow> bool \<Rightarrow> nat \<Rightarrow> 'f \<Rightarrow> int + 'f FixPtsContext" where
  "fixpts_init ops alloc_ok bufsize_opt tolerance_opt =
     (if \<not> alloc_ok then Inl (AVERROR ENOMEM)
      else Inr \<lparr>bufsize = bufsize_opt,
               maxbufsize = sizeof_frame * bufsize_opt,
               last_ts = d_of_int ops 0,
               last_nb_samples = 0,
               tolerance = tolerance_opt,
               fifo = []\<rparr>)"

text \<open>
  A sequence of frame arrivals: \<^verbatim>\<open>filter_frame\<close> once per frame, in order, with the return
  code of every call.
\<close>

fun fixpts_deliver ::
  "'f double_ops \<Rightarrow> 'd filter_frame_fn \<Rightarrow> AVFilterLink \<Rightarrow> ('f, 'd) fixpts_world
     \<Rightarrow> AVFrame list \<Rightarrow> (int list \<times> ('f, 'd) fixpts_world) option" where
  "fixpts_deliver ops ff inlink w [] = Some ([], w)"
| "fixpts_deliver ops ff inlink w (frame # frames) =
     (case fixpts_filter_frame ops ff inlink w frame of
        None \<Rightarrow> None
      | Some (ret, w') \<Rightarrow>
          (case fixpts_deliver ops ff inlink w' frames of
             None \<Rightarrow> None
           | Some (rets, w'') \<Rightarrow> Some (ret # rets, w'')))"

section \<open>The segment selector (\<^verbatim>\<open>EditingContext\<close>)\<close>

text \<open>
  \<^verbatim>\<open>MediaSegment\<close> is a node of a singly linked list. A pointer into the list is the list of
  the nodes from there on: \<^verbatim>\<open>NULL\<close> is \<open>[]\<close> and \<^verbatim>\<open>p->next\<close> is the tail. The fields
  \<^verbatim>\<open>start\<close> and \<^verbatim>\<open>end\<close> are \<open>seg_start\<close> and \<open>seg_end\<close>.
\<close>

record 'f MediaSegment =
  seg_start :: 'f
  seg_end :: 'f

record 'f EditingContext =
  opt_segments :: "string option"
  ts_base :: 'f
  ts_prev :: 'f
  frame_out :: int
  current :: "'f MediaSegment list"
  segments :: "'f MediaSegment list"

type_synonym ('f, 'd) editing_world = "('f EditingContext, 'd) world"

text \<open>
  \<^verbatim>\<open>strsep(&n, delim)\<close> of the C library: the token runs up to the first character of
  \<open>delim\<close>, and \<open>n\<close> moves past that character, or becomes \<^verbatim>\<open>NULL\<close> when the text has no
  delimiter. On \<^verbatim>\<open>n == NULL\<close> the result is \<^verbatim>\<open>NULL\<close>. The result is the pair of the token
  and the new \<open>n\<close>.
\<close>

fun strsep_scan :: "string \<Rightarrow> string \<Rightarrow> string \<times> string option" where
  "strsep_scan [] delim = ([], None)"
| "strsep_scan (c # cs) delim =
     (if c \<in> set delim then ([], Some cs)
      else (case strsep_scan cs delim of (tok, rest) \<Rightarrow> (c # tok, rest)))"

definition strsep :: "string option \<Rightarrow> string \<Rightarrow> string option \<times> string option" where
  "strsep stringp delim =
     (case stringp of
        None \<Rightarrow> (None, None)
      | Some s \<Rightarrow> (case strsep_scan s delim of (tok, rest) \<Rightarrow> (Some tok, rest)))"

text \<open>
  \<^verbatim>\<open>atof\<close> is a C library function, not code of this repository: \<^verbatim>\<open>parse_segments\<close> takes it
  as the parameter \<open>atof\<close>. For the concrete scenarios, \<open>atof_decimal\<close> is the library
  function on plain decimal text: leading white space, an optional sign, digits, an
  optional point and digits; the conversion stops at the first other character and text
  with no digits gives 0. Exponents, hexadecimal text, \<^verbatim>\<open>inf\<close> and \<^verbatim>\<open>nan\<close> are left out, and
  the value is exact, so it is the library's value where that is representable.
\<close>

definition isspace :: "char \<Rightarrow> bool" where
  "isspace c = (c \<in> set [CHR '' '', CHR 0x09, CHR 0x0A, CHR 0x0B, CHR 0x0C, CHR 0x0D])"

definition isdigit :: "char \<Rightarrow> bool" where
  "isdigit c = (48 \<le> (of_char c :: nat) \<and> (of_char c :: nat) \<le> 57)"

fun atof_digits :: "string \<Rightarrow> nat \<Rightarrow> nat \<times> string" where
  "atof_digits [] acc = (acc, [])"
| "atof_digits (c # cs) acc =
     (if isdigit c then atof_digits cs (10 * acc + (of_char c - 48)) else (acc, c # cs))"

fun atof_fraction :: "string \<Rightarrow> real \<Rightarrow> real" where
  "atof_fraction [] weight = 0"
| "atof_fraction (c # cs) weight =
     (if isdigit c then real (of_char c - 48) * weight + atof_fraction cs (weight / 10)
      else 0)"

definition atof_decimal :: "string \<Rightarrow> real" where
  "atof_decimal s =
     (let s1 = dropWhile isspace s;
          neg = (case s1 of [] \<Rightarrow> False | c # r \<Rightarrow> c = CHR ''-'');
          s2 = (case s1 of [] \<Rightarrow> [] | c # r \<Rightarrow> if c = CHR ''-'' \<or> c = CHR ''+'' then r else s1)
      in case atof_digits s2 0 of
           (ip, s3) \<Rightarrow>
             let fp = (case s3 of [] \<Rightarrow> 0
                       | c # r \<Rightarrow> if c = CHR ''.'' then atof_fraction r (1 / 10) else 0)
             in (if neg then - 1 else 1) * (real ip + fp))"

text \<open>
  The \<^verbatim>\<open>do { ... } while (n != NULL)\<close> loop of \<^verbatim>\<open>parse_segments\<close>. \<open>n\<close> is the rest of the
  description (not \<^verbatim>\<open>NULL\<close> at the head of the loop), \<open>j\<close> the previous segment, and \<open>segs\<close>
  the list linked into \<^verbatim>\<open>editing->segments\<close> so far. The result is the return code and
  that list.
\<close>

function parse_segments_loop ::
  "'f double_ops \<Rightarrow> (string \<Rightarrow> 'f) \<Rightarrow> string \<Rightarrow> 'f MediaSegment option
     \<Rightarrow> 'f MediaSegment list \<Rightarrow> int \<times> 'f MediaSegment list" where
  "parse_segments_loop ops atof n j segs =
     (case strsep (Some n) ''-'' of
        (None, n1) \<Rightarrow> (AVERROR EINVAL, segs)
      | (Some p, n1) \<Rightarrow>
          if (case j of None \<Rightarrow> False | Some js \<Rightarrow> d_lt ops (atof p) (seg_end js))
          then (AVERROR EINVAL, segs)
          else (case strsep n1 ''#'' of
                  (None, n2) \<Rightarrow> (AVERROR EINVAL, segs)
                | (Some p2, n2) \<Rightarrow>
                    if d_ge ops (atof p) (atof p2) then (AVERROR EINVAL, segs)
                    else (case n2 of
                            None \<Rightarrow> (0, segs @ [\<lparr>seg_start = atof p, seg_end = atof p2\<rparr>])
                          | Some n' \<Rightarrow>
                              parse_segments_loop ops atof n'
                                (Some \<lparr>seg_start = atof p, seg_end = atof p2\<rparr>)
                                (segs @ [\<lparr>seg_start = atof p, seg_end = atof p2\<rparr>]))))"
  by pat_completeness auto
termination
proof (relation "measure (\<lambda>(ops, atof, n, j, segs). length n)")
  show "wf (measure (\<lambda>(ops :: 'f double_ops, atof :: string \<Rightarrow> 'f, n :: string,
                        j :: 'f MediaSegment option, segs :: 'f MediaSegment list). length n))"
    by simp
next
  fix ops :: "'f double_ops" and atof :: "string \<Rightarrow> 'f" and n :: string
    and j :: "'f MediaSegment option" and segs :: "'f MediaSegment list"
    and x p n1 x2 p2 n2 n'
  assume a: "(x, n1) = strsep (Some n) ''-''" "x = Some p"
    "(x2, n2) = strsep n1 ''#''" "x2 = Some p2" "n2 = Some n'"
  have scan: "length r < length s" if "strsep_scan s delim = (tok, Some r)"
    for s delim tok r
    using that by (induction s arbitrary: tok) (auto split: if_splits prod.splits)
  from a(3-5) obtain m where m: "n1 = Some m" "strsep_scan m ''#'' = (p2, Some n')"
    by (cases n1) (auto simp: strsep_def split: prod.splits)
  from a(1,2) m(1) have "strsep_scan n ''-'' = (p, Some m)"
    by (auto simp: strsep_def split: prod.splits)
  from scan[OF this] scan[OF m(2)] have "length n' < length n" by simp
  then show "((ops, atof, n', Some \<lparr>seg_start = atof p, seg_end = atof p2\<rparr>,
                segs @ [\<lparr>seg_start = atof p, seg_end = atof p2\<rparr>]), (ops, atof, n, j, segs))
               \<in> measure (\<lambda>(ops, atof, n, j, segs). length n)"
    by simp
qed

declare parse_segments_loop.simps [simp del]

text \<open>
  \<^verbatim>\<open>parse_segments\<close>: a missing option is an error; otherwise the loop links the
  segments it accepts into \<^verbatim>\<open>editing->segments\<close>, which keeps its old value when not even
  the first segment is accepted.
\<close>

definition parse_segments ::
  "'f double_ops \<Rightarrow> (string \<Rightarrow> 'f) \<Rightarrow> 'f EditingContext \<Rightarrow> int \<times> 'f EditingContext" where
  "parse_segments ops atof editing =
     (case opt_segments editing of
        None \<Rightarrow> (AVERROR EINVAL, editing)
      | Some n \<Rightarrow>
          (case parse_segments_loop ops atof n None [] of
             (ret, segs) \<Rightarrow>
               (ret, editing\<lparr>segments := (if segs = [] then segments editing else segs)\<rparr>)))"

text \<open>\<^verbatim>\<open>init\<close> of the selector.\<close>

definition editing_init ::
  "'f double_ops \<Rightarrow> (string \<Rightarrow> 'f) \<Rightarrow> 'f EditingContext \<Rightarrow> int \<times> 'f EditingContext" where
  "editing_init ops atof editing =
     (case parse_segments ops atof editing of
        (ret, editing1) \<Rightarrow>
          if ret < 0 then (ret, editing1)
          else (0, editing1\<lparr>current := segments editing1, ts_base := d_of_int ops 0,
                            ts_prev := d_of_int ops 0, frame_out := 0\<rparr>))"

text \<open>The label \<^verbatim>\<open>discard\<close> of the selector's \<^verbatim>\<open>filter_frame\<close>.\<close>

definition editing_discard ::
  "('f, 'd) editing_world \<Rightarrow> 'f EditingContext \<Rightarrow> AVFrame \<Rightarrow> int \<times> ('f, 'd) editing_world" where
  "editing_discard w editing frame =
     (0, w\<lparr>priv := editing\<lparr>frame_out := 0\<rparr>, freed := freed w @ [frame]\<rparr>)"

text \<open>
  \<^verbatim>\<open>filter_frame\<close> of the selector. The assignment
  \<^verbatim>\<open>frame->pts = frame_out_ts / av_q2d(inlink->time_base)\<close> converts a \<^verbatim>\<open>double\<close> to
  \<^verbatim>\<open>int64_t\<close>; where that conversion is undefined the model returns \<open>None\<close>.
\<close>

definition editing_filter_frame ::
  "'f double_ops \<Rightarrow> 'd filter_frame_fn \<Rightarrow> AVFilterLink \<Rightarrow> ('f, 'd) editing_world \<Rightarrow> AVFrame
     \<Rightarrow> (int \<times> ('f, 'd) editing_world) option" where
  "editing_filter_frame ops ff inlink w frame =
     (let editing = priv w in
      case current editing of
        [] \<Rightarrow> Some (editing_discard w editing frame)
      | cur # nxt \<Rightarrow>
          let frame_in_ts = frame_ts ops inlink frame in
          if d_gt ops (ts_prev editing) frame_in_ts
          then Some (AVERROR EINVAL, w\<lparr>freed := freed w @ [frame]\<rparr>)
          else
            let editing1 = editing\<lparr>ts_prev := frame_in_ts\<rparr>;
                frame_out_ts = d_add ops (ts_base editing1)
                                 (d_sub ops frame_in_ts (seg_start cur))
            in if d_ge ops frame_in_ts (seg_end cur)
               then Some (editing_discard w
                            (editing1\<lparr>current := nxt, ts_base := frame_out_ts\<rparr>) frame)
               else if d_le ops frame_in_ts (seg_start cur)
               then Some (editing_discard w editing1 frame)
               else
                 (case d_to_int ops (d_div ops frame_out_ts (av_q2d ops (time_base inlink))) of
                    None \<Rightarrow> None
                  | Some new_pts \<Rightarrow>
                      (case ff (dst w) (frame\<lparr>pts := new_pts\<rparr>) of
                         (ret, d') \<Rightarrow>
                           Some (ret,
                                 w\<lparr>priv := editing1\<lparr>frame_out := (if ret = 0 then 1 else 0)\<rparr>,
                                   sent := sent w @ [frame\<lparr>pts := new_pts\<rparr>],
                                   dst := d'\<rparr>))))"

text \<open>A sequence of frame arrivals at the selector, with the return code of every call.\<close>

fun editing_deliver ::
  "'f double_ops \<Rightarrow> 'd filter_frame_fn \<Rightarrow> AVFilterLink \<Rightarrow> ('f, 'd) editing_world
     \<Rightarrow> AVFrame list \<Rightarrow> (int list \<times> ('f, 'd) editing_world) option" where
  "editing_deliver ops ff inlink w [] = Some ([], w)"
| "editing_deliver ops ff inlink w (frame # frames) =
     (case editing_filter_frame ops ff inlink w frame of
        None \<Rightarrow> None
      | Some (ret, w') \<Rightarrow>
          (case editing_deliver ops ff inlink w' frames of
             None \<Rightarrow> None
           | Some (rets, w'') \<Rightarrow> Some (ret # rets, w'')))"

section \<open>The specification's vocabulary\<close>

text \<open>
  The description format of the spec, \<^verbatim>\<open>start-end#start-end#...\<close>: the text of a list of
  pairs of bound texts, \<^verbatim>\<open>-\<close> between the bounds of a pair and \<^verbatim>\<open>#\<close> between pairs.
\<close>

fun segments_text :: "(string \<times> string) list \<Rightarrow> string" where
  "segments_text [] = []"
| "segments_text [(s, e)] = s @ ''-'' @ e"
| "segments_text ((s, e) # others) = s @ ''-'' @ e @ ''#'' @ segments_text others"

text \<open>The interval a pair of bound texts denotes: each bound is what \<open>atof\<close> reads.\<close>

definition token_segment :: "(string \<Rightarrow> 'f) \<Rightarrow> string \<times> string \<Rightarrow> 'f MediaSegment" where
  "token_segment atof se = \<lparr>seg_start = atof (fst se), seg_end = atof (snd se)\<rparr>"

text \<open>
  The acceptance condition in the spec's words: every interval satisfies \<open>start < end\<close>,
  and each interval's start is at least the previous interval's end.
\<close>

definition intervals_accepted :: "'f double_ops \<Rightarrow> 'f MediaSegment list \<Rightarrow> bool" where
  "intervals_accepted ops ivs =
     ((\<forall>iv \<in> set ivs. d_lt ops (seg_start iv) (seg_end iv))
      \<and> (\<forall>(a, b) \<in> set (zip ivs (tl ivs)). d_ge ops (seg_start b) (seg_end a)))"

text \<open>
  The contiguous output timeline in the spec's words, in exact arithmetic: the retained
  segments laid end to end with no gap, so an input time inside a segment is placed at
  the total length of the segments before it plus its offset into its own segment.
\<close>

fun contiguous_out :: "real MediaSegment list \<Rightarrow> real \<Rightarrow> real option" where
  "contiguous_out [] t = None"
| "contiguous_out (s # ss) t =
     (if seg_start s < t \<and> t < seg_end s then Some (t - seg_start s)
      else map_option (\<lambda>x. (seg_end s - seg_start s) + x) (contiguous_out ss t))"

text \<open>
  Two auxiliary predicates of the proofs. \<open>chain_ok\<close> is the sequence of tests the parse
  loop makes, segment by segment, with the previous segment \<open>j\<close> as the loop holds it.
  \<open>editing_inv\<close> is the invariant of the selector while a segment is current: the frames
  sent so far have non-decreasing \<open>pts\<close>, the segments still ahead satisfy \<open>start < end\<close>,
  \<open>ts_base\<close> is at least zero, \<open>ts_prev\<close> is a number, and every sent \<open>pts\<close> is the
  conversion of an output timestamp that is not above the output position of \<open>ts_prev\<close>.
\<close>

fun chain_ok :: "'f double_ops \<Rightarrow> 'f MediaSegment option \<Rightarrow> 'f MediaSegment list \<Rightarrow> bool" where
  "chain_ok ops j [] = True"
| "chain_ok ops j (iv # ivs) =
     ((case j of None \<Rightarrow> True | Some js \<Rightarrow> \<not> d_lt ops (seg_start iv) (seg_end js))
      \<and> \<not> d_ge ops (seg_start iv) (seg_end iv) \<and> chain_ok ops (Some iv) ivs)"

definition out_position :: "'f double_ops \<Rightarrow> 'f EditingContext \<Rightarrow> 'f MediaSegment \<Rightarrow> 'f" where
  "out_position ops editing cur =
     (if d_lt ops (seg_start cur) (ts_prev editing)
      then d_add ops (ts_base editing) (d_sub ops (ts_prev editing) (seg_start cur))
      else ts_base editing)"

definition editing_inv :: "'f double_ops \<Rightarrow> AVFilterLink \<Rightarrow> ('f, 'd) editing_world \<Rightarrow> bool" where
  "editing_inv ops inlink w =
     (sorted (map pts (sent w))
      \<and> (case current (priv w) of
            [] \<Rightarrow> True
          | cur # nxt \<Rightarrow>
              (\<forall>s \<in> set (current (priv w)). d_lt ops (seg_start s) (seg_end s))
              \<and> d_le ops (d_of_int ops 0) (ts_base (priv w))
              \<and> is_number ops (ts_prev (priv w))
              \<and> (\<forall>f \<in> set (sent w).
                    \<exists>out. d_to_int ops (d_div ops out (av_q2d ops (time_base inlink)))
                             = Some (pts f)
                          \<and> d_le ops out (out_position ops (priv w) cur))))"

section \<open>Concrete inputs\<close>

text \<open>
  The inputs of the concrete scenarios, in exact arithmetic: a video link at one frame per
  second with a time base of one second, frames that differ in their \<open>pts\<close> only, a
  stabilizer with a given capacity and queue whose registers are the initial ones and
  whose tolerance is 2 to the power -23, and a downstream that answers every frame with
  the same return code.
\<close>

definition ex_video_link :: AVFilterLink where
  "ex_video_link = \<lparr>link_type = AVMEDIA_TYPE_VIDEO, frame_rate = \<lparr>num = 1, den = 1\<rparr>,
                     sample_rate = 0, time_base = \<lparr>num = 1, den = 1\<rparr>\<rparr>"

definition ex_frame :: "int \<Rightarrow> AVFrame" where
  "ex_frame p = \<lparr>pts = p, nb_samples = 0\<rparr>"

definition ex_fixpts :: "nat \<Rightarrow> AVFrame list \<Rightarrow> (real, unit) fixpts_world" where
  "ex_fixpts b q =
     \<lparr>priv = \<lparr>bufsize = b, maxbufsize = sizeof_frame * b, last_ts = 0, last_nb_samples = 0,
              tolerance = 1 / 8388608, fifo = q\<rparr>,
      freed = [], sent = [], dst = ()\<rparr>"

definition ff_const :: "int \<Rightarrow> unit filter_frame_fn" where
  "ff_const r d frame = (r, d)"

text \<open>
  For the selector: a link whose time base is half a second, a new context holding a
  description, the two segments of the scenario \<^verbatim>\<open>"1.0-2.0#3.0-4.0"\<close>, and the selector
  as \<^verbatim>\<open>init\<close> leaves it for that description.
\<close>

definition ex_half_link :: AVFilterLink where
  "ex_half_link = \<lparr>link_type = AVMEDIA_TYPE_VIDEO, frame_rate = \<lparr>num = 1, den = 1\<rparr>,
                    sample_rate = 0, time_base = \<lparr>num = 1, den = 2\<rparr>\<rparr>"

definition ex_editing :: "string option \<Rightarrow> real EditingContext" where
  "ex_editing opt = \<lparr>opt_segments = opt, ts_base = 0, ts_prev = 0, frame_out = 0,
                     current = [], segments = []\<rparr>"

definition ex_two_segments :: "real MediaSegment list" where
  "ex_two_segments = [\<lparr>seg_start = 1, seg_end = 2\<rparr>, \<lparr>seg_start = 3, seg_end = 4\<rparr>]"

definition ex_selector :: "(real, unit) editing_world" where
  "ex_selector = \<lparr>priv = (ex_editing (Some ''1.0-2.0#3.0-4.0''))
                          \<lparr>current := ex_two_segments, segments := ex_two_segments\<rparr>,
                  freed = [], sent = [], dst = ()\<rparr>"



section \<open>Properties of the comparisons\<close>

lemma ieee_le_trans:
  assumes "ieee_order ops" and "d_le ops a b" and "d_le ops b c"
  shows "d_le ops a c"
proof -
  from assms(1) have "\<forall>a b c. d_le ops a b \<and> d_le ops b c \<longrightarrow> d_le ops a c"
    unfolding ieee_order_def by (rule conjunct1)
  from this[rule_format, of a b c] assms(2,3) show ?thesis by blast
qed

lemma ieee_le_number:
  assumes "ieee_order ops" and "d_le ops a b"
  shows "is_number ops a \<and> is_number ops b"
proof -
  from assms(1) have "\<forall>a b. d_le ops a b \<longrightarrow> d_le ops a a \<and> d_le ops b b"
    unfolding ieee_order_def by (rule conjunct2[THEN conjunct1])
  from this[rule_format, of a b] assms(2) show ?thesis
    unfolding is_number_def by blast
qed

lemma ieee_le_total:
  assumes "ieee_order ops" and "is_number ops a" and "is_number ops b"
  shows "d_le ops a b \<or> d_le ops b a"
proof -
  from assms(1)
  have "\<forall>a b. d_le ops a a \<and> d_le ops b b \<longrightarrow> d_le ops a b \<or> d_le ops b a"
    unfolding ieee_order_def by (rule conjunct2[THEN conjunct2, THEN conjunct1])
  from this[rule_format, of a b] assms(2,3) show ?thesis
    unfolding is_number_def by blast
qed

lemma ieee_lt_iff:
  assumes "ieee_order ops"
  shows "d_lt ops a b = (d_le ops a b \<and> \<not> d_le ops b a)"
proof -
  from assms have "\<forall>a b. d_lt ops a b = (d_le ops a b \<and> \<not> d_le ops b a)"
    unfolding ieee_order_def by (rule conjunct2[THEN conjunct2, THEN conjunct2])
  from this[rule_format, of a b] show ?thesis .
qed



lemma ieee_lt_le_trans:
  assumes "ieee_order ops" and "d_lt ops a b" and "d_le ops b c"
  shows "d_lt ops a c"
  using ieee_le_trans[OF assms(1), of a b c] ieee_le_trans[OF assms(1), of b c a]
    ieee_lt_iff[OF assms(1), of a b] ieee_lt_iff[OF assms(1), of a c] assms(2,3)
  by blast




lemma ieee_not_lt:
  assumes "ieee_order ops" and "is_number ops a" and "is_number ops b"
    and "\<not> d_lt ops a b"
  shows "d_le ops b a"
  using ieee_le_total[OF assms(1-3)] ieee_lt_iff[OF assms(1), of a b] assms(4) by blast

lemma ieee_not_le:
  assumes "ieee_order ops" and "is_number ops a" and "is_number ops b"
    and "\<not> d_le ops a b"
  shows "d_lt ops b a"
  using ieee_le_total[OF assms(1-3)] ieee_lt_iff[OF assms(1), of b a] assms(4) by blast

lemma real_ops_order: "ieee_order real_ops"
proof -
  have "\<forall>a b c :: real. a \<le> b \<and> b \<le> c \<longrightarrow> a \<le> c" by simp
  moreover have "\<forall>a b :: real. a \<le> b \<or> b \<le> a" by (simp add: linear)
  moreover have "\<forall>a b :: real. (a < b) = (a \<le> b \<and> \<not> b \<le> a)"
    by (simp add: less_le_not_le)
  ultimately show ?thesis
    unfolding ieee_order_def real_ops_def by simp
qed

lemma real_ops_number: "is_number real_ops x"
  by (simp add: is_number_def real_ops_def)

text \<open>The doubles with special values satisfy the laws of the comparisons.\<close>

lemma xd_le_trans: "xd_le a b \<Longrightarrow> xd_le b c \<Longrightarrow> xd_le a c"
  by (cases a; cases b; cases c) simp_all

lemma xd_le_refl: "xd_le a b \<Longrightarrow> xd_le a a \<and> xd_le b b"
  by (cases a; cases b) simp_all

lemma xd_le_total: "xd_le a a \<Longrightarrow> xd_le b b \<Longrightarrow> xd_le a b \<or> xd_le b a"
  by (cases a; cases b) auto

lemma xdouble_ops_sel:
  "d_le xdouble_ops = xd_le" "d_lt xdouble_ops = xd_lt" "d_add xdouble_ops = xd_add"
  "d_sub xdouble_ops = xd_sub" "d_div xdouble_ops = xd_div"
  "d_of_int xdouble_ops = (\<lambda>i. Finite (real_of_int i))" "d_to_int xdouble_ops = xd_to_int"
  by (simp_all add: xdouble_ops_def)

lemma xdouble_ops_order: "ieee_order xdouble_ops"
proof -
  have t1: "\<forall>a b c. xd_le a b \<and> xd_le b c \<longrightarrow> xd_le a c"
    using xd_le_trans by blast
  have t2: "\<forall>a b. xd_le a b \<longrightarrow> xd_le a a \<and> xd_le b b"
    using xd_le_refl by blast
  have t3: "\<forall>a b. xd_le a a \<and> xd_le b b \<longrightarrow> xd_le a b \<or> xd_le b a"
    using xd_le_total by blast
  have t4: "\<forall>a b. xd_lt a b = (xd_le a b \<and> \<not> xd_le b a)"
    by (simp add: xd_lt_def)
  show ?thesis
    unfolding ieee_order_def xdouble_ops_sel by (intro conjI t1 t2 t3 t4)
qed

section \<open>Properties of the stabilizer\<close>

lemmas ex_defs = ex_video_link_def ex_frame_def ex_fixpts_def ff_const_def
lemmas fixpts_defs = process_next_frame_def submit_and_exit_def frame_gap_def frame_ts_def
  frame_ti_def av_q2d_def av_fifo_drain_def av_fifo_size_def sizeof_frame_def Let_def
  d_gt_def d_ge_def real_ops_def

subsection \<open>The scan loop\<close>




subsection \<open>The resolution step\<close>







text \<open>
  Claim C9 as stated fails: the two registers are written before the frame is handed to
  the downstream. A stabilizer of capacity 1 holds the frame with \<open>pts\<close> 1 and the
  downstream answers \<^verbatim>\<open>AVERROR(ENOMEM)\<close>: the resolution step returns that error, so the
  emission did not succeed, and \<open>last_ts\<close> has moved from 0 to 1.
\<close>

theorem process_next_frame_registers_counterexample:
  "process_next_frame real_ops (ff_const (AVERROR ENOMEM)) ex_video_link
       (ex_fixpts 1 [ex_frame 1])
     = Some (AVERROR ENOMEM,
             (ex_fixpts 1 [])\<lparr>priv := (priv (ex_fixpts 1 []))\<lparr>last_ts := 1\<rparr>,
                               sent := [ex_frame 1]\<rparr>)
   \<and> AVERROR ENOMEM \<noteq> 0
   \<and> last_ts (priv (ex_fixpts 1 [ex_frame 1])) = 0
   \<and> (1 :: real) \<noteq> 0"
  by (simp add: ex_defs fixpts_defs AVERROR_def ENOMEM_def)

text \<open>
  Claim C9, amended. The two registers are written exactly when the resolution step takes
  the emission path, before the frame is handed to the downstream and whatever the
  downstream returns: a step that hands no frame to the downstream leaves \<open>last_ts\<close> and
  \<open>last_nb_samples\<close> as they were, and a step that hands one over has handed over the
  oldest frame and has set the two registers from that frame.
\<close>

theorem process_next_frame_registers:
  assumes "process_next_frame ops ff inlink w = Some (r, w')"
  shows "(sent w' = sent w \<longrightarrow>
            last_ts (priv w') = last_ts (priv w)
          \<and> last_nb_samples (priv w') = last_nb_samples (priv w))
       \<and> (sent w' \<noteq> sent w \<longrightarrow>
            (\<exists>F rest. fifo (priv w) = F # rest \<and> sent w' = sent w @ [F]
               \<and> last_ts (priv w') = frame_ts ops inlink F
               \<and> last_nb_samples (priv w') = nb_samples F))"
  using assms
  by (auto simp: process_next_frame_def submit_and_exit_def Let_def
           split: list.splits prod.splits if_splits)

theorem process_next_frame_registers_witness:
  "process_next_frame real_ops (ff_const 0) ex_video_link
       (ex_fixpts 4 [ex_frame 5, ex_frame 3, ex_frame 1, ex_frame 2])
     = Some (0, (ex_fixpts 4 [ex_frame 1, ex_frame 2])\<lparr>freed := [ex_frame 3, ex_frame 5]\<rparr>)
   \<and> sent ((ex_fixpts 4 [ex_frame 1, ex_frame 2])\<lparr>freed := [ex_frame 3, ex_frame 5]\<rparr>)
       = sent (ex_fixpts 4 [ex_frame 5, ex_frame 3, ex_frame 1, ex_frame 2])
   \<and> last_ts (priv ((ex_fixpts 4 [ex_frame 1, ex_frame 2])\<lparr>freed := [ex_frame 3, ex_frame 5]\<rparr>))
       = last_ts (priv (ex_fixpts 4 [ex_frame 5, ex_frame 3, ex_frame 1, ex_frame 2]))
   \<and> last_nb_samples
        (priv ((ex_fixpts 4 [ex_frame 1, ex_frame 2])\<lparr>freed := [ex_frame 3, ex_frame 5]\<rparr>))
       = last_nb_samples (priv (ex_fixpts 4 [ex_frame 5, ex_frame 3, ex_frame 1, ex_frame 2]))"
proof -
  have h: "process_next_frame real_ops (ff_const 0) ex_video_link
       (ex_fixpts 4 [ex_frame 5, ex_frame 3, ex_frame 1, ex_frame 2])
     = Some (0, (ex_fixpts 4 [ex_frame 1, ex_frame 2])\<lparr>freed := [ex_frame 3, ex_frame 5]\<rparr>)"
    by (simp add: ex_defs fixpts_defs)
  show ?thesis
    using h process_next_frame_registers[OF h] by (simp add: ex_defs)
qed

subsection \<open>The queue bound\<close>

lemma process_next_frame_shrinks:
  "process_next_frame ops ff inlink w = Some (r, w') \<Longrightarrow>
     length (fifo (priv w')) < length (fifo (priv w))
   \<and> bufsize (priv w') = bufsize (priv w) \<and> maxbufsize (priv w') = maxbufsize (priv w)"
  by (auto simp: process_next_frame_def submit_and_exit_def av_fifo_drain_def Let_def
           split: list.splits prod.splits if_splits)

lemma process_next_frame_nonempty:
  "fifo (priv w) \<noteq> [] \<Longrightarrow> \<exists>r w'. process_next_frame ops ff inlink w = Some (r, w')"
  by (auto simp: process_next_frame_def submit_and_exit_def Let_def
           split: list.splits prod.splits if_splits)

lemma fixpts_filter_frame_below:
  assumes "maxbufsize (priv w) = sizeof_frame * bufsize (priv w)"
    and "length (fifo (priv w)) < bufsize (priv w)"
  shows "\<exists>w'. fixpts_filter_frame ops ff inlink w frame = Some (0, w')
           \<and> length (fifo (priv w')) < bufsize (priv w')
           \<and> bufsize (priv w') = bufsize (priv w)
           \<and> maxbufsize (priv w') = maxbufsize (priv w)"
proof -
  let ?w1 = "w\<lparr>priv := (priv w)\<lparr>fifo := fifo (priv w) @ [frame]\<rparr>\<rparr>"
  have lt: "av_fifo_size (fifo (priv w)) < maxbufsize (priv w)"
    using assms by (simp add: av_fifo_size_def sizeof_frame_def)
  show ?thesis
  proof (cases "Suc (length (fifo (priv w))) = bufsize (priv w)")
    case True
    then have full: "av_fifo_size (fifo (priv ?w1)) = maxbufsize (priv ?w1)"
      using assms(1) by (simp add: av_fifo_size_def)
    have "fifo (priv ?w1) \<noteq> []" by simp
    from process_next_frame_nonempty[OF this, of ops ff inlink] obtain r w2
      where p: "process_next_frame ops ff inlink ?w1 = Some (r, w2)" by blast
    from process_next_frame_shrinks[OF p] True
    have sh: "length (fifo (priv w2)) < bufsize (priv w2)" "bufsize (priv w2) = bufsize (priv w)"
      "maxbufsize (priv w2) = maxbufsize (priv w)" by auto
    then have "\<not> av_fifo_size (fifo (priv w2)) > maxbufsize (priv w2)"
      using assms(1) by (simp add: av_fifo_size_def sizeof_frame_def)
    with lt full p have "fixpts_filter_frame ops ff inlink w frame = Some (0, w2)"
      by (simp add: fixpts_filter_frame_def Let_def)
    with sh show ?thesis by simp
  next
    case False
    with assms(2) have l: "Suc (length (fifo (priv w))) < bufsize (priv w)" by simp
    then have nf: "av_fifo_size (fifo (priv ?w1)) \<noteq> maxbufsize (priv ?w1)"
      "\<not> av_fifo_size (fifo (priv ?w1)) > maxbufsize (priv ?w1)"
      using assms(1) by (simp_all add: av_fifo_size_def sizeof_frame_def)
    with lt have "fixpts_filter_frame ops ff inlink w frame = Some (0, ?w1)"
      by (simp add: fixpts_filter_frame_def Let_def)
    with l show ?thesis by simp
  qed
qed

lemma fixpts_deliver_below:
  assumes "maxbufsize (priv w) = sizeof_frame * bufsize (priv w)"
    and "length (fifo (priv w)) < bufsize (priv w)"
  shows "\<exists>rets w'. fixpts_deliver ops ff inlink w frames = Some (rets, w')
           \<and> length rets = length frames
           \<and> (\<forall>r \<in> set rets. r = 0)
           \<and> length (fifo (priv w')) < bufsize (priv w')
           \<and> bufsize (priv w') = bufsize (priv w)
           \<and> maxbufsize (priv w') = maxbufsize (priv w)"
  using assms
proof (induction frames arbitrary: w)
  case Nil
  then show ?case by simp
next
  case (Cons frame frames)
  from fixpts_filter_frame_below[OF Cons.prems, of ops ff inlink frame] obtain w1 where
    w1: "fixpts_filter_frame ops ff inlink w frame = Some (0, w1)"
      "length (fifo (priv w1)) < bufsize (priv w1)"
      "bufsize (priv w1) = bufsize (priv w)" "maxbufsize (priv w1) = maxbufsize (priv w)"
    by blast
  have m: "maxbufsize (priv w1) = sizeof_frame * bufsize (priv w1)"
    using w1(3,4) Cons.prems(1) by simp
  from Cons.IH[OF m w1(2)] obtain rets w2 where
    w2: "fixpts_deliver ops ff inlink w1 frames = Some (rets, w2)" "length rets = length frames"
      "\<forall>r \<in> set rets. r = 0" "length (fifo (priv w2)) < bufsize (priv w2)"
      "bufsize (priv w2) = bufsize (priv w1)" "maxbufsize (priv w2) = maxbufsize (priv w1)"
    by blast
  with w1 show ?case by simp
qed


text \<open>
  Claim C8. A stabilizer initialized with a capacity \<open>b \<ge> 1\<close> accepts every sequence of
  frame arrivals: no arrival returns the capacity error \<^verbatim>\<open>AVERROR(EINVAL)\<close>, and after the
  arrivals the queue holds at most \<open>b\<close> frames (\<^verbatim>\<open>av_fifo_size\<close> is at most \<^verbatim>\<open>maxbufsize\<close>).
  Every resolution step shortens the queue by at least its oldest entry.
\<close>

theorem fixpts_queue_bounded:
  assumes "fixpts_init ops True b tol = Inr c" and "1 \<le> b"
  shows "\<exists>rets w'. fixpts_deliver ops ff inlink \<lparr>priv = c, freed = [], sent = [], dst = d\<rparr> frames
                      = Some (rets, w')
           \<and> length rets = length frames
           \<and> (\<forall>r \<in> set rets. r \<noteq> AVERROR EINVAL)
           \<and> length (fifo (priv w')) \<le> b
           \<and> av_fifo_size (fifo (priv w')) \<le> maxbufsize (priv w')
           \<and> (\<forall>v r v'. process_next_frame ops ff inlink v = Some (r, v')
                  \<longrightarrow> length (fifo (priv v')) < length (fifo (priv v)))"
proof -
  let ?w = "\<lparr>priv = c, freed = [], sent = [], dst = d\<rparr>"
  from assms have c: "maxbufsize (priv ?w) = sizeof_frame * bufsize (priv ?w)"
    "length (fifo (priv ?w)) < bufsize (priv ?w)" "bufsize (priv ?w) = b"
    by (auto simp: fixpts_init_def)
  from fixpts_deliver_below[OF c(1,2), of ops ff inlink frames] obtain rets w' where
    r: "fixpts_deliver ops ff inlink ?w frames = Some (rets, w')" "length rets = length frames"
      "\<forall>r \<in> set rets. r = 0" "length (fifo (priv w')) < bufsize (priv w')"
      "bufsize (priv w') = bufsize (priv ?w)" "maxbufsize (priv w') = maxbufsize (priv ?w)"
    by blast
  from r(3) have "\<forall>r \<in> set rets. r \<noteq> AVERROR EINVAL"
    by (auto simp: AVERROR_def EINVAL_def)
  moreover from r(4,5,6) c have "length (fifo (priv w')) \<le> b"
    "av_fifo_size (fifo (priv w')) \<le> maxbufsize (priv w')"
    by (simp_all add: av_fifo_size_def)
  moreover have "\<forall>v r v'. process_next_frame ops ff inlink v = Some (r, v')
                  \<longrightarrow> length (fifo (priv v')) < length (fifo (priv v))"
    using process_next_frame_shrinks by blast
  ultimately show ?thesis using r(1,2) by blast
qed

theorem fixpts_queue_bounded_witness:
  "fixpts_init real_ops True 2 (1 / 8388608) = Inr (priv (ex_fixpts 2 [])) \<and> (1::nat) \<le> 2
   \<and> (\<exists>rets w'. fixpts_deliver real_ops (ff_const 0) ex_video_link
                    \<lparr>priv = priv (ex_fixpts 2 []), freed = [], sent = [], dst = ()\<rparr>
                    [ex_frame 1, ex_frame 2, ex_frame 3] = Some (rets, w')
           \<and> length rets = length [ex_frame 1, ex_frame 2, ex_frame 3]
           \<and> (\<forall>r \<in> set rets. r \<noteq> AVERROR EINVAL)
           \<and> length (fifo (priv w')) \<le> 2
           \<and> av_fifo_size (fifo (priv w')) \<le> maxbufsize (priv w')
           \<and> (\<forall>v r v'. process_next_frame real_ops (ff_const 0) ex_video_link v = Some (r, v')
                  \<longrightarrow> length (fifo (priv v')) < length (fifo (priv v))))"
proof -
  have h: "fixpts_init real_ops True 2 (1 / 8388608) = Inr (priv (ex_fixpts 2 []))"
    by (simp add: fixpts_init_def ex_fixpts_def real_ops_def)
  have b: "(1::nat) \<le> 2" by simp
  show ?thesis
    using h b fixpts_queue_bounded[OF h b, of "ff_const 0" ex_video_link "()"
                                     "[ex_frame 1, ex_frame 2, ex_frame 3]"]
    by simp
qed


subsection \<open>End of stream and downstream errors\<close>

text \<open>
  Claim C4, evaluated. A stabilizer of capacity 4 has taken two frames (both queued,
  nothing sent yet) when the upstream pull reports end of stream. \<^verbatim>\<open>request_frame\<close> runs
  the resolution step once, which sends the first frame, and returns \<^verbatim>\<open>AVERROR_EOF\<close> with
  the second frame still queued: the loop tests the pull's \<^verbatim>\<open>ret\<close>, which is never 0 there.
\<close>

theorem request_frame_flush_leaves_queue:
  "fixpts_deliver real_ops (ff_const 0) ex_video_link (ex_fixpts 4 []) [ex_frame 1, ex_frame 2]
     = Some ([0, 0], ex_fixpts 4 [ex_frame 1, ex_frame 2])
   \<and> fixpts_request_frame real_ops (ff_const 0) ex_video_link (\<lambda>w. Some (AVERROR_EOF, w))
       (ex_fixpts 4 [ex_frame 1, ex_frame 2])
     = Some (AVERROR_EOF,
             (ex_fixpts 4 [ex_frame 2])\<lparr>priv := (priv (ex_fixpts 4 [ex_frame 2]))\<lparr>last_ts := 1\<rparr>,
                                         sent := [ex_frame 1]\<rparr>)"
  by (simp add: fixpts_request_frame_def fixpts_filter_frame_def AVERROR_EOF_def
                ex_defs fixpts_defs)

theorem request_frame_flush_leaves_queue_witness:
  "\<exists>w'. fixpts_request_frame real_ops (ff_const 0) ex_video_link (\<lambda>w. Some (AVERROR_EOF, w))
           (ex_fixpts 4 [ex_frame 1, ex_frame 2]) = Some (AVERROR_EOF, w')
        \<and> fifo (priv w') = [ex_frame 2] \<and> sent w' = [ex_frame 1]"
  using request_frame_flush_leaves_queue by (simp add: ex_fixpts_def)

text \<open>
  Claim C5, evaluated. The downstream answers every frame with \<^verbatim>\<open>AVERROR(ENOMEM)\<close>. A
  stabilizer of capacity 1 takes a frame: the resolution step sends it, the downstream
  fails, and \<^verbatim>\<open>filter_frame\<close> returns 0. A stabilizer with one queued frame is flushed at
  end of stream: the downstream fails, and \<^verbatim>\<open>request_frame\<close> returns \<^verbatim>\<open>AVERROR_EOF\<close>.
\<close>

theorem fixpts_downstream_error_dropped:
  "fixpts_filter_frame real_ops (ff_const (AVERROR ENOMEM)) ex_video_link (ex_fixpts 1 []) (ex_frame 1)
     = Some (0, (ex_fixpts 1 [])\<lparr>priv := (priv (ex_fixpts 1 []))\<lparr>last_ts := 1\<rparr>,
                                  sent := [ex_frame 1]\<rparr>)
   \<and> fixpts_request_frame real_ops (ff_const (AVERROR ENOMEM)) ex_video_link
       (\<lambda>w. Some (AVERROR_EOF, w)) (ex_fixpts 4 [ex_frame 1])
     = Some (AVERROR_EOF,
             (ex_fixpts 4 [])\<lparr>priv := (priv (ex_fixpts 4 []))\<lparr>last_ts := 1\<rparr>,
                                sent := [ex_frame 1]\<rparr>)
   \<and> AVERROR ENOMEM \<noteq> 0 \<and> AVERROR ENOMEM \<noteq> AVERROR_EOF"
  by (simp add: fixpts_request_frame_def fixpts_filter_frame_def AVERROR_EOF_def AVERROR_def
                ENOMEM_def ex_defs fixpts_defs)

theorem fixpts_downstream_error_dropped_witness:
  "\<exists>w'. fixpts_filter_frame real_ops (ff_const (AVERROR ENOMEM)) ex_video_link (ex_fixpts 1 [])
           (ex_frame 1) = Some (0, w')
        \<and> sent w' = [ex_frame 1]"
  using fixpts_downstream_error_dropped by (simp add: ex_fixpts_def)

section \<open>Properties of the selector\<close>

lemmas sel_ex_defs = ex_half_link_def ex_editing_def ex_two_segments_def ex_selector_def
  ex_frame_def ff_const_def
lemmas editing_defs = editing_filter_frame_def editing_discard_def frame_ts_def
  av_q2d_def Let_def d_gt_def d_ge_def real_ops_def double_to_int64_def
lemmas parse_defs = editing_init_def parse_segments_def strsep_def atof_decimal_def
  isspace_def isdigit_def Let_def d_ge_def real_ops_def

subsection \<open>The segment list parser\<close>

lemma strsep_scan_found:
  "set s \<inter> set delim = {} \<Longrightarrow> c \<in> set delim \<Longrightarrow> strsep_scan (s @ c # r) delim = (s, Some r)"
  by (induction s) auto

lemma strsep_scan_missing:
  "set s \<inter> set delim = {} \<Longrightarrow> strsep_scan s delim = (s, None)"
  by (induction s) auto

lemma parse_pair_more:
  assumes "CHR ''-'' \<notin> set s" and "CHR ''#'' \<notin> set e"
  shows "parse_segments_loop ops atof (s @ CHR ''-'' # e @ CHR ''#'' # rest) j segs =
      (if (case j of None \<Rightarrow> False | Some js \<Rightarrow> d_lt ops (atof s) (seg_end js))
       then (AVERROR EINVAL, segs)
       else if d_ge ops (atof s) (atof e) then (AVERROR EINVAL, segs)
       else parse_segments_loop ops atof rest (Some \<lparr>seg_start = atof s, seg_end = atof e\<rparr>)
              (segs @ [\<lparr>seg_start = atof s, seg_end = atof e\<rparr>]))"
proof -
  from assms have ne: "set s \<inter> set ''-'' = {}" "set e \<inter> set ''#'' = {}" by auto
  have 1: "strsep (Some (s @ CHR ''-'' # e @ CHR ''#'' # rest)) ''-''
             = (Some s, Some (e @ CHR ''#'' # rest))"
    using strsep_scan_found[OF ne(1), of "CHR ''-''"] by (simp add: strsep_def)
  have 2: "strsep (Some (e @ CHR ''#'' # rest)) ''#'' = (Some e, Some rest)"
    using strsep_scan_found[OF ne(2), of "CHR ''#''"] by (simp add: strsep_def)
  show ?thesis
    by (subst parse_segments_loop.simps) (simp add: 1 2)
qed

lemma parse_pair_last:
  assumes "CHR ''-'' \<notin> set s" and "CHR ''#'' \<notin> set e"
  shows "parse_segments_loop ops atof (s @ CHR ''-'' # e) j segs =
      (if (case j of None \<Rightarrow> False | Some js \<Rightarrow> d_lt ops (atof s) (seg_end js))
       then (AVERROR EINVAL, segs)
       else if d_ge ops (atof s) (atof e) then (AVERROR EINVAL, segs)
       else (0, segs @ [\<lparr>seg_start = atof s, seg_end = atof e\<rparr>]))"
proof -
  from assms have ne: "set s \<inter> set ''-'' = {}" "set e \<inter> set ''#'' = {}" by auto
  have 1: "strsep (Some (s @ CHR ''-'' # e)) ''-'' = (Some s, Some e)"
    using strsep_scan_found[OF ne(1), of "CHR ''-''" e] by (simp add: strsep_def)
  have 2: "strsep (Some e) ''#'' = (Some e, None)"
    using strsep_scan_missing[OF ne(2)] by (simp add: strsep_def)
  show ?thesis
    by (subst parse_segments_loop.simps) (simp add: 1 2)
qed

lemma parse_no_dash:
  assumes "CHR ''-'' \<notin> set tail"
  shows "fst (parse_segments_loop ops atof tail j segs) = AVERROR EINVAL"
proof -
  from assms have "strsep_scan tail ''-'' = (tail, None)"
    by (intro strsep_scan_missing) simp
  then show ?thesis
    by (subst parse_segments_loop.simps) (simp add: strsep_def)
qed

lemma parse_segments_loop_text:
  assumes "\<forall>(s, e) \<in> set (t # ts). CHR ''-'' \<notin> set s \<and> CHR ''#'' \<notin> set e"
  shows "fst (parse_segments_loop ops atof (segments_text (t # ts)) j segs)
           = (if chain_ok ops j (map (token_segment atof) (t # ts)) then 0 else AVERROR EINVAL)
       \<and> (chain_ok ops j (map (token_segment atof) (t # ts)) \<longrightarrow>
            snd (parse_segments_loop ops atof (segments_text (t # ts)) j segs)
              = segs @ map (token_segment atof) (t # ts))"
  using assms
proof (induction ts arbitrary: t j segs)
  case Nil
  obtain s e where t: "t = (s, e)" by (cases t)
  with Nil have ne: "CHR ''-'' \<notin> set s" "CHR ''#'' \<notin> set e" by auto
  show ?case
    unfolding t using parse_pair_last[OF ne, of ops atof j segs]
    by (auto simp: token_segment_def split: option.splits)
next
  case (Cons u us)
  obtain s e where t: "t = (s, e)" by (cases t)
  with Cons.prems have ne: "CHR ''-'' \<notin> set s" "CHR ''#'' \<notin> set e" by auto
  have shape: "segments_text (t # u # us)
               = s @ CHR ''-'' # e @ CHR ''#'' # segments_text (u # us)"
    by (simp add: t)
  from Cons.prems have pre: "\<forall>(s, e) \<in> set (u # us). CHR ''-'' \<notin> set s \<and> CHR ''#'' \<notin> set e"
    by simp
  note IH = Cons.IH[OF pre, of "Some (token_segment atof t)" "segs @ [token_segment atof t]"]
  note step = parse_pair_more[OF ne, of ops atof "segments_text (u # us)" j segs]
  show ?case
    unfolding shape step using IH
    by (auto simp: token_segment_def t split: option.splits)
qed

lemma parse_segments_loop_tail:
  assumes "\<forall>(s, e) \<in> set (t # ts). CHR ''-'' \<notin> set s \<and> CHR ''#'' \<notin> set e"
    and "CHR ''-'' \<notin> set tail"
  shows "fst (parse_segments_loop ops atof (segments_text (t # ts) @ CHR ''#'' # tail) j segs)
           = AVERROR EINVAL"
  using assms(1)
proof (induction ts arbitrary: t j segs)
  case Nil
  obtain s e where t: "t = (s, e)" by (cases t)
  with Nil have ne: "CHR ''-'' \<notin> set s" "CHR ''#'' \<notin> set e" by auto
  have shape: "segments_text [t] @ CHR ''#'' # tail = s @ CHR ''-'' # e @ CHR ''#'' # tail"
    by (simp add: t)
  show ?case
    unfolding shape parse_pair_more[OF ne]
    by (simp add: parse_no_dash[OF assms(2)])
next
  case (Cons u us)
  obtain s e where t: "t = (s, e)" by (cases t)
  with Cons.prems have ne: "CHR ''-'' \<notin> set s" "CHR ''#'' \<notin> set e" by auto
  have shape: "segments_text (t # u # us) @ CHR ''#'' # tail
               = s @ CHR ''-'' # e @ CHR ''#'' # (segments_text (u # us) @ CHR ''#'' # tail)"
    by (simp add: t)
  from Cons.prems have pre: "\<forall>(s, e) \<in> set (u # us). CHR ''-'' \<notin> set s \<and> CHR ''#'' \<notin> set e"
    by simp
  show ?case
    unfolding shape parse_pair_more[OF ne]
    by (simp add: Cons.IH[OF pre])
qed

lemma number_not_lt_iff:
  assumes "ieee_order ops" and "is_number ops a" and "is_number ops b"
  shows "(\<not> d_lt ops a b) = d_ge ops a b"
  using ieee_not_lt[OF assms] ieee_lt_iff[OF assms(1), of a b]
  unfolding d_ge_def by blast

lemma number_not_ge_iff:
  assumes "ieee_order ops" and "is_number ops a" and "is_number ops b"
  shows "(\<not> d_ge ops a b) = d_lt ops a b"
  using ieee_not_le[OF assms(1,3,2)] ieee_lt_iff[OF assms(1), of a b]
  unfolding d_ge_def by blast

lemma intervals_accepted_Cons:
  "intervals_accepted ops (iv # ivs) =
     (d_lt ops (seg_start iv) (seg_end iv)
      \<and> (case ivs of [] \<Rightarrow> True | b # _ \<Rightarrow> d_ge ops (seg_start b) (seg_end iv))
      \<and> intervals_accepted ops ivs)"
  by (cases ivs) (auto simp: intervals_accepted_def)

lemma chain_ok_accepted:
  assumes "ieee_order ops"
    and "\<forall>iv \<in> set ivs. is_number ops (seg_start iv) \<and> is_number ops (seg_end iv)"
    and "case j of None \<Rightarrow> True | Some js \<Rightarrow> is_number ops (seg_end js)"
  shows "chain_ok ops j ivs =
     ((case ivs of [] \<Rightarrow> True
       | iv # _ \<Rightarrow> (case j of None \<Rightarrow> True | Some js \<Rightarrow> d_ge ops (seg_start iv) (seg_end js)))
      \<and> intervals_accepted ops ivs)"
  using assms(2,3)
proof (induction ivs arbitrary: j)
  case Nil
  then show ?case by (simp add: intervals_accepted_def)
next
  case (Cons iv ivs)
  from Cons.prems have n: "is_number ops (seg_start iv)" "is_number ops (seg_end iv)"
    and rest: "\<forall>iv \<in> set ivs. is_number ops (seg_start iv) \<and> is_number ops (seg_end iv)"
    by simp_all
  have a: "(\<not> d_ge ops (seg_start iv) (seg_end iv)) = d_lt ops (seg_start iv) (seg_end iv)"
    by (rule number_not_ge_iff[OF assms(1) n])
  have b: "(case j of None \<Rightarrow> True | Some js \<Rightarrow> \<not> d_lt ops (seg_start iv) (seg_end js))
         = (case j of None \<Rightarrow> True | Some js \<Rightarrow> d_ge ops (seg_start iv) (seg_end js))"
    using Cons.prems(2) number_not_lt_iff[OF assms(1) n(1)]
    by (cases j) simp_all
  have c: "chain_ok ops (Some iv) ivs =
          ((case ivs of [] \<Rightarrow> True | b # _ \<Rightarrow> d_ge ops (seg_start b) (seg_end iv))
           \<and> intervals_accepted ops ivs)"
    using n(2) by (subst Cons.IH[OF rest]) (simp_all split: list.splits)
  show ?case
    by (auto simp: a b c intervals_accepted_Cons)
qed

lemma parse_segments_loop_result:
  "(fst (parse_segments_loop ops atof n j segs) = 0
      \<longrightarrow> snd (parse_segments_loop ops atof n j segs) \<noteq> [])
   \<and> (fst (parse_segments_loop ops atof n j segs) = 0
      \<or> fst (parse_segments_loop ops atof n j segs) = AVERROR EINVAL)"
proof (induction ops atof n j segs rule: parse_segments_loop.induct)
  case (1 ops atof n j segs)
  note IH = "1.IH"[OF sym refl _ sym refl _ refl]
  have eq: "parse_segments_loop ops atof n j segs =
     (case strsep (Some n) ''-'' of
        (None, n1) \<Rightarrow> (AVERROR EINVAL, segs)
      | (Some p, n1) \<Rightarrow>
          if (case j of None \<Rightarrow> False | Some js \<Rightarrow> d_lt ops (atof p) (seg_end js))
          then (AVERROR EINVAL, segs)
          else (case strsep n1 ''#'' of
                  (None, n2) \<Rightarrow> (AVERROR EINVAL, segs)
                | (Some p2, n2) \<Rightarrow>
                    if d_ge ops (atof p) (atof p2) then (AVERROR EINVAL, segs)
                    else (case n2 of
                            None \<Rightarrow> (0, segs @ [\<lparr>seg_start = atof p, seg_end = atof p2\<rparr>])
                          | Some n' \<Rightarrow>
                              parse_segments_loop ops atof n'
                                (Some \<lparr>seg_start = atof p, seg_end = atof p2\<rparr>)
                                (segs @ [\<lparr>seg_start = atof p, seg_end = atof p2\<rparr>]))))"
    by (rule parse_segments_loop.simps)
  have IH_None: "(fst (parse_segments_loop ops atof n'
                        (Some \<lparr>seg_start = atof p, seg_end = atof p2\<rparr>)
                        (segs @ [\<lparr>seg_start = atof p, seg_end = atof p2\<rparr>])) = 0
                   \<longrightarrow> snd (parse_segments_loop ops atof n'
                        (Some \<lparr>seg_start = atof p, seg_end = atof p2\<rparr>)
                        (segs @ [\<lparr>seg_start = atof p, seg_end = atof p2\<rparr>])) \<noteq> [])
                \<and> (fst (parse_segments_loop ops atof n'
                        (Some \<lparr>seg_start = atof p, seg_end = atof p2\<rparr>)
                        (segs @ [\<lparr>seg_start = atof p, seg_end = atof p2\<rparr>])) = 0
                   \<or> fst (parse_segments_loop ops atof n'
                        (Some \<lparr>seg_start = atof p, seg_end = atof p2\<rparr>)
                        (segs @ [\<lparr>seg_start = atof p, seg_end = atof p2\<rparr>])) = AVERROR EINVAL)"
    if "j = None" "strsep (Some n) ''-'' = (Some p, n1)"
       "strsep n1 ''#'' = (Some p2, Some n')" "\<not> d_ge ops (atof p) (atof p2)"
    for p n1 p2 n'
    using IH[of p n1 p2 n'] that by simp
  have IH_Some: "(fst (parse_segments_loop ops atof n'
                        (Some \<lparr>seg_start = atof p, seg_end = atof p2\<rparr>)
                        (segs @ [\<lparr>seg_start = atof p, seg_end = atof p2\<rparr>])) = 0
                   \<longrightarrow> snd (parse_segments_loop ops atof n'
                        (Some \<lparr>seg_start = atof p, seg_end = atof p2\<rparr>)
                        (segs @ [\<lparr>seg_start = atof p, seg_end = atof p2\<rparr>])) \<noteq> [])
                \<and> (fst (parse_segments_loop ops atof n'
                        (Some \<lparr>seg_start = atof p, seg_end = atof p2\<rparr>)
                        (segs @ [\<lparr>seg_start = atof p, seg_end = atof p2\<rparr>])) = 0
                   \<or> fst (parse_segments_loop ops atof n'
                        (Some \<lparr>seg_start = atof p, seg_end = atof p2\<rparr>)
                        (segs @ [\<lparr>seg_start = atof p, seg_end = atof p2\<rparr>])) = AVERROR EINVAL)"
    if "j = Some js" "\<not> d_lt ops (atof p) (seg_end js)" "strsep (Some n) ''-'' = (Some p, n1)"
       "strsep n1 ''#'' = (Some p2, Some n')" "\<not> d_ge ops (atof p) (atof p2)"
    for p n1 p2 n' js
    using IH[of p n1 p2 n'] that by simp
  show ?case
    unfolding eq
    by (auto split: prod.splits option.splits simp: AVERROR_def EINVAL_def
             dest!: IH_None IH_Some)
qed

lemma parse_segments_loop_nonempty:
  "parse_segments_loop ops atof n j segs = (0, out) \<Longrightarrow> out \<noteq> []"
  using parse_segments_loop_result[of ops atof n j segs] by simp

lemma parse_segments_loop_ret:
  "fst (parse_segments_loop ops atof n j segs) = 0
     \<or> fst (parse_segments_loop ops atof n j segs) = AVERROR EINVAL"
  using parse_segments_loop_result[of ops atof n j segs] by simp

lemma editing_init_ret:
  "fst (editing_init ops atof editing) = fst (parse_segments ops atof editing)"
proof (cases "opt_segments editing")
  case None
  then show ?thesis
    by (simp add: editing_init_def parse_segments_def AVERROR_def EINVAL_def)
next
  case (Some n)
  with parse_segments_loop_ret[of ops atof n None "[]"] show ?thesis
    by (auto simp: editing_init_def parse_segments_def AVERROR_def EINVAL_def
             split: prod.splits)
qed

lemma editing_init_ok:
  assumes "editing_init ops atof editing0 = (0, editing)"
  shows "current editing \<noteq> [] \<and> current editing = segments editing
         \<and> ts_prev editing = d_of_int ops 0 \<and> ts_base editing = d_of_int ops 0
         \<and> frame_out editing = 0"
proof -
  from assms obtain n where n: "opt_segments editing0 = Some n"
    by (cases "opt_segments editing0")
       (auto simp: editing_init_def parse_segments_def AVERROR_def EINVAL_def)
  obtain ret segs where l: "parse_segments_loop ops atof n None [] = (ret, segs)"
    by (cases "parse_segments_loop ops atof n None []") auto
  from parse_segments_loop_ret[of ops atof n None "[]"] l
  have "ret = 0 \<or> ret = AVERROR EINVAL" by simp
  with assms n l have r: "ret = 0"
    "editing = editing0\<lparr>segments := (if segs = [] then segments editing0 else segs),
                        current := (if segs = [] then segments editing0 else segs),
                        ts_base := d_of_int ops 0, ts_prev := d_of_int ops 0,
                        frame_out := 0\<rparr>"
    by (auto simp: editing_init_def parse_segments_def AVERROR_def EINVAL_def)
  from l r(1) have "segs \<noteq> []" using parse_segments_loop_nonempty by blast
  with r(2) show ?thesis by simp
qed

text \<open>
  Claim C7 as stated fails: a description with a missing bound is not always rejected.
  For \<^verbatim>\<open>"-5"\<close> the start text is empty, \<^verbatim>\<open>atof\<close> reads it as 0, and \<^verbatim>\<open>init\<close> succeeds with the
  single segment from 0 to 5.
\<close>

theorem parse_segments_missing_bound_counterexample:
  "editing_init real_ops atof_decimal ((ex_editing None)\<lparr>opt_segments := Some ''-5''\<rparr>)
     = (0, (ex_editing (Some ''-5''))\<lparr>current := [\<lparr>seg_start = 0, seg_end = 5\<rparr>],
                                      segments := [\<lparr>seg_start = 0, seg_end = 5\<rparr>]\<rparr>)"
  by (simp add: parse_defs ex_editing_def parse_segments_loop.simps)

text \<open>
  Claim C7, amended. Take any non-empty list of pairs of bound texts, the start texts
  without \<^verbatim>\<open>-\<close> and the end texts without \<^verbatim>\<open>#\<close>, every bound being a number as \<open>atof\<close>
  reads it (an empty text or one that is no numeral reads as 0 and is not an error in
  itself). On the description \<^verbatim>\<open>start-end#start-end#...\<close> of these pairs, \<^verbatim>\<open>init\<close> succeeds if
  and only if every interval satisfies \<open>start < end\<close> and each start is at least the
  previous end; otherwise it returns \<^verbatim>\<open>AVERROR(EINVAL)\<close>. On success the segment list is
  the list of these intervals. \<^verbatim>\<open>init\<close> also returns \<^verbatim>\<open>AVERROR(EINVAL)\<close> when the description
  goes on after these pairs with \<^verbatim>\<open>#\<close> and a text without \<^verbatim>\<open>-\<close>, when the whole
  description has no \<^verbatim>\<open>-\<close>, and when the description is missing.
\<close>

theorem parse_segments_accepts_iff:
  assumes "ieee_order ops"
    and "\<forall>(s, e) \<in> set toks. CHR ''-'' \<notin> set s \<and> CHR ''#'' \<notin> set e
                               \<and> is_number ops (atof s) \<and> is_number ops (atof e)"
    and "toks \<noteq> []"
    and "CHR ''-'' \<notin> set tail"
  shows "fst (editing_init ops atof (editing\<lparr>opt_segments := Some (segments_text toks)\<rparr>))
           = (if intervals_accepted ops (map (token_segment atof) toks)
              then 0 else AVERROR EINVAL)
       \<and> (intervals_accepted ops (map (token_segment atof) toks) \<longrightarrow>
            segments (snd (editing_init ops atof
                             (editing\<lparr>opt_segments := Some (segments_text toks)\<rparr>)))
              = map (token_segment atof) toks)
       \<and> fst (editing_init ops atof
                 (editing\<lparr>opt_segments := Some (segments_text toks @ ''#'' @ tail)\<rparr>))
           = AVERROR EINVAL
       \<and> fst (editing_init ops atof (editing\<lparr>opt_segments := Some tail\<rparr>)) = AVERROR EINVAL
       \<and> fst (editing_init ops atof (editing\<lparr>opt_segments := None\<rparr>)) = AVERROR EINVAL"
proof (intro conjI impI)
  from assms(3) obtain t ts where toks: "toks = t # ts" by (cases toks) auto
  from assms(2) have sep: "\<forall>(s, e) \<in> set (t # ts). CHR ''-'' \<notin> set s \<and> CHR ''#'' \<notin> set e"
    unfolding toks by auto
  note loop = parse_segments_loop_text[OF sep, of ops atof None "[]", folded toks]
  from assms(2) have nums: "\<forall>iv \<in> set (map (token_segment atof) toks).
                              is_number ops (seg_start iv) \<and> is_number ops (seg_end iv)"
    by (auto simp: token_segment_def)
  have ok: "chain_ok ops None (map (token_segment atof) toks)
              = intervals_accepted ops (map (token_segment atof) toks)"
    using chain_ok_accepted[OF assms(1) nums, of None] by (simp add: toks)
  show "fst (editing_init ops atof (editing\<lparr>opt_segments := Some (segments_text toks)\<rparr>))
           = (if intervals_accepted ops (map (token_segment atof) toks)
              then 0 else AVERROR EINVAL)"
    using loop ok
    by (simp add: editing_init_ret parse_segments_def case_prod_unfold)
  show "segments (snd (editing_init ops atof
                         (editing\<lparr>opt_segments := Some (segments_text toks)\<rparr>)))
              = map (token_segment atof) toks"
    if "intervals_accepted ops (map (token_segment atof) toks)"
    using loop ok that assms(3)
    by (auto simp: editing_init_def parse_segments_def split: prod.splits)
  have "fst (parse_segments_loop ops atof (segments_text toks @ CHR ''#'' # tail) None [])
          = AVERROR EINVAL"
    unfolding toks by (rule parse_segments_loop_tail[OF sep assms(4)])
  then show "fst (editing_init ops atof
                 (editing\<lparr>opt_segments := Some (segments_text toks @ ''#'' @ tail)\<rparr>))
           = AVERROR EINVAL"
    by (simp add: editing_init_ret parse_segments_def case_prod_unfold)
next
  show "fst (editing_init ops atof (editing\<lparr>opt_segments := Some tail\<rparr>)) = AVERROR EINVAL"
    using parse_no_dash[OF assms(4), of ops atof None "[]"]
    by (simp add: editing_init_ret parse_segments_def case_prod_unfold)
next
  show "fst (editing_init ops atof (editing\<lparr>opt_segments := None\<rparr>)) = AVERROR EINVAL"
    by (simp add: editing_init_ret parse_segments_def)
qed

theorem parse_segments_accepts_iff_witness:
  "ieee_order real_ops
   \<and> CHR ''-'' \<notin> set ''1.0'' \<and> CHR ''#'' \<notin> set ''2.0''
   \<and> CHR ''-'' \<notin> set ''3.0'' \<and> CHR ''#'' \<notin> set ''4.0''
   \<and> is_number real_ops (atof_decimal ''1.0'') \<and> is_number real_ops (atof_decimal ''2.0'')
   \<and> is_number real_ops (atof_decimal ''3.0'') \<and> is_number real_ops (atof_decimal ''4.0'')
   \<and> [(''1.0'', ''2.0''), (''3.0'', ''4.0'')] \<noteq> []
   \<and> CHR ''-'' \<notin> set ''3''
   \<and> segments_text [(''1.0'', ''2.0''), (''3.0'', ''4.0'')] = ''1.0-2.0#3.0-4.0''
   \<and> intervals_accepted real_ops
        (map (token_segment atof_decimal) [(''1.0'', ''2.0''), (''3.0'', ''4.0'')])
   \<and> fst (editing_init real_ops atof_decimal
            ((ex_editing None)\<lparr>opt_segments := Some ''1.0-2.0#3.0-4.0''\<rparr>)) = 0
   \<and> fst (editing_init real_ops atof_decimal
            ((ex_editing None)\<lparr>opt_segments := Some ''1.0-2.0#3.0-4.0#3''\<rparr>)) = AVERROR EINVAL
   \<and> fst (editing_init real_ops atof_decimal
            ((ex_editing None)\<lparr>opt_segments := Some ''2.0-1.0''\<rparr>)) = AVERROR EINVAL
   \<and> fst (editing_init real_ops atof_decimal
            ((ex_editing None)\<lparr>opt_segments := Some ''1.0-3.0#2.0-4.0''\<rparr>)) = AVERROR EINVAL"
proof -
  have a: "intervals_accepted real_ops
        (map (token_segment atof_decimal) [(''1.0'', ''2.0''), (''3.0'', ''4.0'')])"
    "\<not> intervals_accepted real_ops (map (token_segment atof_decimal) [(''2.0'', ''1.0'')])"
    "\<not> intervals_accepted real_ops
        (map (token_segment atof_decimal) [(''1.0'', ''3.0''), (''2.0'', ''4.0'')])"
    by (simp_all add: intervals_accepted_def token_segment_def atof_decimal_def isspace_def
                      isdigit_def d_ge_def real_ops_def)
  show ?thesis
    using a real_ops_order
      parse_segments_accepts_iff[OF real_ops_order,
        of "[(''1.0'', ''2.0''), (''3.0'', ''4.0'')]" atof_decimal "''3''" "ex_editing None"]
      parse_segments_accepts_iff[OF real_ops_order,
        of "[(''2.0'', ''1.0'')]" atof_decimal "''3''" "ex_editing None"]
      parse_segments_accepts_iff[OF real_ops_order,
        of "[(''1.0'', ''3.0''), (''2.0'', ''4.0'')]" atof_decimal "''3''" "ex_editing None"]
    by (simp add: real_ops_number)
qed

subsection \<open>Frame arrival\<close>

text \<open>
  Claim C10. After a successful \<^verbatim>\<open>init\<close> (so the segment list is not empty and \<open>ts_prev\<close>
  is 0), a first frame whose timestamp in seconds is below zero is freed, nothing is sent,
  the context is unchanged and \<^verbatim>\<open>filter_frame\<close> returns \<^verbatim>\<open>AVERROR(EINVAL)\<close>.
\<close>

theorem negative_first_timestamp_rejected:
  assumes "editing_init ops atof editing0 = (0, editing)"
    and "d_lt ops (frame_ts ops inlink frame) (d_of_int ops 0)"
  shows "editing_filter_frame ops ff inlink
           \<lparr>priv = editing, freed = fr, sent = se, dst = d\<rparr> frame
           = Some (AVERROR EINVAL, \<lparr>priv = editing, freed = fr @ [frame], sent = se, dst = d\<rparr>)"
  using editing_init_ok[OF assms(1)] assms(2)
  by (auto simp: editing_filter_frame_def Let_def d_gt_def split: list.splits)

theorem negative_first_timestamp_rejected_witness:
  "editing_init real_ops atof_decimal (ex_editing (Some ''1.0-2.0#3.0-4.0''))
     = (0, priv ex_selector)
   \<and> d_lt real_ops (frame_ts real_ops ex_half_link (ex_frame (- 1))) (d_of_int real_ops 0)
   \<and> editing_filter_frame real_ops (ff_const 0) ex_half_link
        \<lparr>priv = priv ex_selector, freed = [], sent = [], dst = ()\<rparr> (ex_frame (- 1))
       = Some (AVERROR EINVAL,
               \<lparr>priv = priv ex_selector, freed = [] @ [ex_frame (- 1)], sent = [],
                dst = ()\<rparr>)"
proof -
  have h1: "editing_init real_ops atof_decimal (ex_editing (Some ''1.0-2.0#3.0-4.0''))
              = (0, priv ex_selector)"
    by (simp add: parse_defs parse_segments_loop.simps sel_ex_defs)
  have h2: "d_lt real_ops (frame_ts real_ops ex_half_link (ex_frame (- 1)))
              (d_of_int real_ops 0)"
    by (simp add: sel_ex_defs frame_ts_def av_q2d_def real_ops_def)
  show ?thesis
    using h1 h2 negative_first_timestamp_rejected[OF h1 h2, of "ff_const 0" "[]" "[]" "()"]
    by blast
qed

text \<open>
  Claim C6 as stated fails when the segment list is exhausted. The selector has taken the
  five frames of the scenario, so \<open>current\<close> is \<^verbatim>\<open>NULL\<close> and \<open>ts_prev\<close> is 4.5; a frame at
  0.5 seconds then returns 0, not the discontinuity error.
\<close>

theorem editing_discontinuity_counterexample:
  "editing_deliver real_ops (ff_const 0) ex_half_link ex_selector
       [ex_frame 1, ex_frame 3, ex_frame 5, ex_frame 7, ex_frame 9]
     = Some ([0, 0, 0, 0, 0],
             ex_selector\<lparr>priv := (priv ex_selector)
                             \<lparr>ts_base := 3, ts_prev := 9 / 2, frame_out := 0, current := []\<rparr>,
                         freed := [ex_frame 1, ex_frame 5, ex_frame 9],
                         sent := [ex_frame 1, ex_frame 4]\<rparr>)
   \<and> d_lt real_ops (frame_ts real_ops ex_half_link (ex_frame 1)) (9 / 2)
   \<and> editing_filter_frame real_ops (ff_const 0) ex_half_link
        (ex_selector\<lparr>priv := (priv ex_selector)
                        \<lparr>ts_base := 3, ts_prev := 9 / 2, frame_out := 0, current := []\<rparr>,
                    freed := [ex_frame 1, ex_frame 5, ex_frame 9],
                    sent := [ex_frame 1, ex_frame 4]\<rparr>)
        (ex_frame 1)
     = Some (0,
             ex_selector\<lparr>priv := (priv ex_selector)
                             \<lparr>ts_base := 3, ts_prev := 9 / 2, frame_out := 0, current := []\<rparr>,
                         freed := [ex_frame 1, ex_frame 5, ex_frame 9, ex_frame 1],
                         sent := [ex_frame 1, ex_frame 4]\<rparr>)
   \<and> AVERROR EINVAL \<noteq> 0"
  by (simp add: editing_defs sel_ex_defs AVERROR_def EINVAL_def)

text \<open>
  Claim C6, amended. A frame whose timestamp in seconds is below \<open>ts_prev\<close>: while a segment
  is current, it is freed, nothing is sent, the context is unchanged and the call returns
  \<^verbatim>\<open>AVERROR(EINVAL)\<close>; once the segment list is exhausted, it is freed, nothing is sent and
  the call returns 0.
\<close>

theorem editing_discontinuity:
  assumes "d_lt ops (frame_ts ops inlink frame) (ts_prev (priv w))"
  shows "(current (priv w) \<noteq> [] \<longrightarrow>
            editing_filter_frame ops ff inlink w frame
              = Some (AVERROR EINVAL, w\<lparr>freed := freed w @ [frame]\<rparr>))
       \<and> (current (priv w) = [] \<longrightarrow>
            editing_filter_frame ops ff inlink w frame
              = Some (0, w\<lparr>priv := (priv w)\<lparr>frame_out := 0\<rparr>, freed := freed w @ [frame]\<rparr>))"
  using assms
  by (auto simp: editing_filter_frame_def editing_discard_def Let_def d_gt_def
           split: list.splits)

theorem editing_discontinuity_witness:
  "d_lt real_ops (frame_ts real_ops ex_half_link (ex_frame 1))
     (ts_prev (priv (ex_selector\<lparr>priv := (priv ex_selector)\<lparr>ts_prev := 3 / 2\<rparr>\<rparr>)))
   \<and> editing_filter_frame real_ops (ff_const 0) ex_half_link
        (ex_selector\<lparr>priv := (priv ex_selector)\<lparr>ts_prev := 3 / 2\<rparr>\<rparr>) (ex_frame 1)
       = Some (AVERROR EINVAL,
               ex_selector\<lparr>priv := (priv ex_selector)\<lparr>ts_prev := 3 / 2\<rparr>,
                           freed := [ex_frame 1]\<rparr>)"
proof -
  have h: "d_lt real_ops (frame_ts real_ops ex_half_link (ex_frame 1))
     (ts_prev (priv (ex_selector\<lparr>priv := (priv ex_selector)\<lparr>ts_prev := 3 / 2\<rparr>\<rparr>)))"
    by (simp add: sel_ex_defs frame_ts_def av_q2d_def real_ops_def)
  show ?thesis
    using h editing_discontinuity[OF h, of "ff_const 0"]
    by (simp add: sel_ex_defs)
qed

subsection \<open>The scenario\<close>

text \<open>
  Claim C2 as stated fails: on the scenario, \<open>ts_base\<close> after the frame at 2.5 is not 1.0,
  and the output timestamps in seconds are not 0.5 and 1.5.
\<close>

theorem selector_scenario_counterexample:
  "editing_deliver real_ops (ff_const 0) ex_half_link ex_selector
       [ex_frame 1, ex_frame 3, ex_frame 5]
     = Some ([0, 0, 0],
             ex_selector\<lparr>priv := (priv ex_selector)
                             \<lparr>ts_base := 3 / 2, ts_prev := 5 / 2, frame_out := 0,
                              current := [\<lparr>seg_start = 3, seg_end = 4\<rparr>]\<rparr>,
                         freed := [ex_frame 1, ex_frame 5], sent := [ex_frame 1]\<rparr>)
   \<and> (3 / 2 :: real) \<noteq> 1
   \<and> editing_deliver real_ops (ff_const 0) ex_half_link ex_selector
         [ex_frame 1, ex_frame 3, ex_frame 5, ex_frame 7, ex_frame 9]
       = Some ([0, 0, 0, 0, 0],
               ex_selector\<lparr>priv := (priv ex_selector)
                               \<lparr>ts_base := 3, ts_prev := 9 / 2, frame_out := 0,
                                current := []\<rparr>,
                           freed := [ex_frame 1, ex_frame 5, ex_frame 9],
                           sent := [ex_frame 1, ex_frame 4]\<rparr>)
   \<and> map (frame_ts real_ops ex_half_link) [ex_frame 1, ex_frame 4] \<noteq> [1 / 2, 3 / 2]"
  by (simp add: editing_defs sel_ex_defs)

text \<open>
  Claim C2, amended. Segments \<^verbatim>\<open>"1.0-2.0#3.0-4.0"\<close>, time base 1/2 s, frames at 0.5, 1.5,
  2.5, 3.5, 4.5 seconds (\<open>pts\<close> 1, 3, 5, 7, 9), every call returning 0: the frame at 0.5 is
  freed; the frame at 1.5 is sent with output timestamp 0.5 (\<open>pts\<close> 1); the frame at 2.5 is
  freed, the second segment becomes current and \<open>ts_base\<close> becomes 1.5; the frame at 3.5 is
  sent with output timestamp 2.0 (\<open>pts\<close> 4); the frame at 4.5 is freed and the list is
  exhausted.
\<close>

theorem selector_scenario:
  "editing_init real_ops atof_decimal (ex_editing (Some ''1.0-2.0#3.0-4.0''))
     = (0, priv ex_selector)
   \<and> editing_deliver real_ops (ff_const 0) ex_half_link ex_selector [ex_frame 1]
       = Some ([0], ex_selector\<lparr>priv := (priv ex_selector)\<lparr>ts_prev := 1 / 2\<rparr>,
                                freed := [ex_frame 1]\<rparr>)
   \<and> editing_deliver real_ops (ff_const 0) ex_half_link ex_selector [ex_frame 1, ex_frame 3]
       = Some ([0, 0],
               ex_selector\<lparr>priv := (priv ex_selector)\<lparr>ts_prev := 3 / 2, frame_out := 1\<rparr>,
                           freed := [ex_frame 1], sent := [ex_frame 1]\<rparr>)
   \<and> editing_deliver real_ops (ff_const 0) ex_half_link ex_selector
         [ex_frame 1, ex_frame 3, ex_frame 5]
       = Some ([0, 0, 0],
               ex_selector\<lparr>priv := (priv ex_selector)
                               \<lparr>ts_base := 3 / 2, ts_prev := 5 / 2, frame_out := 0,
                                current := [\<lparr>seg_start = 3, seg_end = 4\<rparr>]\<rparr>,
                           freed := [ex_frame 1, ex_frame 5], sent := [ex_frame 1]\<rparr>)
   \<and> editing_deliver real_ops (ff_const 0) ex_half_link ex_selector
         [ex_frame 1, ex_frame 3, ex_frame 5, ex_frame 7]
       = Some ([0, 0, 0, 0],
               ex_selector\<lparr>priv := (priv ex_selector)
                               \<lparr>ts_base := 3 / 2, ts_prev := 7 / 2, frame_out := 1,
                                current := [\<lparr>seg_start = 3, seg_end = 4\<rparr>]\<rparr>,
                           freed := [ex_frame 1, ex_frame 5],
                           sent := [ex_frame 1, ex_frame 4]\<rparr>)
   \<and> editing_deliver real_ops (ff_const 0) ex_half_link ex_selector
         [ex_frame 1, ex_frame 3, ex_frame 5, ex_frame 7, ex_frame 9]
       = Some ([0, 0, 0, 0, 0],
               ex_selector\<lparr>priv := (priv ex_selector)
                               \<lparr>ts_base := 3, ts_prev := 9 / 2, frame_out := 0,
                                current := []\<rparr>,
                           freed := [ex_frame 1, ex_frame 5, ex_frame 9],
                           sent := [ex_frame 1, ex_frame 4]\<rparr>)
   \<and> map (frame_ts real_ops ex_half_link)
         [ex_frame 1, ex_frame 3, ex_frame 5, ex_frame 7, ex_frame 9]
       = [1 / 2, 3 / 2, 5 / 2, 7 / 2, 9 / 2]
   \<and> map (frame_ts real_ops ex_half_link) [ex_frame 1, ex_frame 4] = [1 / 2, 2]"
  by (simp add: parse_defs parse_segments_loop.simps editing_defs sel_ex_defs)

theorem selector_scenario_witness:
  "\<exists>w'. editing_deliver real_ops (ff_const 0) ex_half_link ex_selector
           [ex_frame 1, ex_frame 3, ex_frame 5, ex_frame 7, ex_frame 9]
           = Some ([0, 0, 0, 0, 0], w')
        \<and> map (frame_ts real_ops ex_half_link) (sent w') = [1 / 2, 2]"
  using selector_scenario by (simp add: ex_selector_def)

subsection \<open>The output timeline\<close>

lemma ieee_arith_zero:
  assumes "ieee_arith ops"
  shows "d_le ops (d_of_int ops 0) (d_of_int ops 0)"
  using assms unfolding ieee_arith_def by (elim conjE)

lemma ieee_arith_sub_pos:
  assumes "ieee_arith ops" and "d_lt ops c a"
  shows "d_le ops (d_of_int ops 0) (d_sub ops a c)"
proof -
  from assms(1) have "\<forall>a c. d_lt ops c a \<longrightarrow> d_le ops (d_of_int ops 0) (d_sub ops a c)"
    unfolding ieee_arith_def by (elim conjE)
  from this[rule_format, of c a] assms(2) show ?thesis by blast
qed

lemma ieee_arith_sub_mono:
  assumes "ieee_arith ops" and "d_le ops a b"
    and "is_number ops (d_sub ops a c)" and "is_number ops (d_sub ops b c)"
  shows "d_le ops (d_sub ops a c) (d_sub ops b c)"
proof -
  from assms(1)
  have "\<forall>a b c. d_le ops a b \<and> is_number ops (d_sub ops a c) \<and> is_number ops (d_sub ops b c)
            \<longrightarrow> d_le ops (d_sub ops a c) (d_sub ops b c)"
    unfolding ieee_arith_def by (elim conjE)
  from this[rule_format, of a b c] assms(2-4) show ?thesis by blast
qed

lemma ieee_arith_add_ge:
  assumes "ieee_arith ops" and "d_le ops (d_of_int ops 0) a" and "d_le ops (d_of_int ops 0) x"
  shows "d_le ops a (d_add ops a x)"
proof -
  from assms(1)
  have "\<forall>a x. d_le ops (d_of_int ops 0) a \<and> d_le ops (d_of_int ops 0) x
            \<longrightarrow> d_le ops a (d_add ops a x)"
    unfolding ieee_arith_def by (elim conjE)
  from this[rule_format, of a x] assms(2,3) show ?thesis by blast
qed

lemma ieee_arith_add_mono:
  assumes "ieee_arith ops" and "d_le ops x y"
    and "is_number ops (d_add ops a x)" and "is_number ops (d_add ops a y)"
  shows "d_le ops (d_add ops a x) (d_add ops a y)"
proof -
  from assms(1)
  have "\<forall>a x y. d_le ops x y \<and> is_number ops (d_add ops a x) \<and> is_number ops (d_add ops a y)
            \<longrightarrow> d_le ops (d_add ops a x) (d_add ops a y)"
    unfolding ieee_arith_def by (elim conjE)
  from this[rule_format, of x y a] assms(2-4) show ?thesis by blast
qed

lemma ieee_arith_div_mono:
  assumes "ieee_arith ops" and "d_le ops x y" and "d_lt ops (d_of_int ops 0) c"
    and "is_number ops (d_div ops x c)" and "is_number ops (d_div ops y c)"
  shows "d_le ops (d_div ops x c) (d_div ops y c)"
proof -
  from assms(1)
  have "\<forall>x y c. d_le ops x y \<and> d_lt ops (d_of_int ops 0) c
                  \<and> is_number ops (d_div ops x c) \<and> is_number ops (d_div ops y c)
            \<longrightarrow> d_le ops (d_div ops x c) (d_div ops y c)"
    unfolding ieee_arith_def by (elim conjE)
  from this[rule_format, of x y c] assms(2-5) show ?thesis by blast
qed

lemma ieee_arith_add_number:
  assumes "ieee_arith ops" and "is_number ops (d_add ops a b)"
  shows "is_number ops a \<and> is_number ops b"
proof -
  from assms(1)
  have "\<forall>a b. is_number ops (d_add ops a b) \<longrightarrow> is_number ops a \<and> is_number ops b"
    unfolding ieee_arith_def by (elim conjE)
  from this[rule_format, of a b] assms(2) show ?thesis by blast
qed

lemma ieee_arith_sub_number:
  assumes "ieee_arith ops" and "is_number ops (d_sub ops a b)"
  shows "is_number ops a \<and> is_number ops b"
proof -
  from assms(1)
  have "\<forall>a b. is_number ops (d_sub ops a b) \<longrightarrow> is_number ops a \<and> is_number ops b"
    unfolding ieee_arith_def by (elim conjE)
  from this[rule_format, of a b] assms(2) show ?thesis by blast
qed

lemma ieee_arith_div_number:
  assumes "ieee_arith ops" and "is_number ops (d_div ops a b)"
  shows "is_number ops a \<and> is_number ops b"
proof -
  from assms(1)
  have "\<forall>a b. is_number ops (d_div ops a b) \<longrightarrow> is_number ops a \<and> is_number ops b"
    unfolding ieee_arith_def by (elim conjE)
  from this[rule_format, of a b] assms(2) show ?thesis by blast
qed

lemma ieee_arith_conv_number:
  assumes "ieee_arith ops" and "d_to_int ops x = Some i"
  shows "is_number ops x"
proof -
  from assms(1) have "\<forall>x i. d_to_int ops x = Some i \<longrightarrow> is_number ops x"
    unfolding ieee_arith_def by (elim conjE)
  from this[rule_format, of x i] assms(2) show ?thesis by blast
qed

lemma ieee_arith_conv_mono:
  assumes "ieee_arith ops" and "d_to_int ops x = Some i" and "d_to_int ops y = Some j"
    and "d_le ops x y"
  shows "i \<le> j"
proof -
  from assms(1)
  have "\<forall>x y i j. d_to_int ops x = Some i \<and> d_to_int ops y = Some j \<and> d_le ops x y
            \<longrightarrow> i \<le> j"
    unfolding ieee_arith_def by (elim conjE)
  from this[rule_format, of x i y j] assms(2-4) show ?thesis by blast
qed

lemma out_ge_base:
  assumes "ieee_order ops" and "ieee_arith ops"
    and "d_le ops (d_of_int ops 0) B" and "d_lt ops S t"
  shows "d_le ops B (d_add ops B (d_sub ops t S))"
  by (rule ieee_arith_add_ge[OF assms(2,3) ieee_arith_sub_pos[OF assms(2,4)]])

lemma out_mono:
  assumes "ieee_order ops" and "ieee_arith ops"
    and "d_le ops (d_of_int ops 0) B" and "d_lt ops S p" and "d_le ops p t"
  shows "d_le ops (d_add ops B (d_sub ops p S)) (d_add ops B (d_sub ops t S))"
proof -
  from ieee_lt_le_trans[OF assms(1,4,5)] have st: "d_lt ops S t" .
  have np: "is_number ops (d_sub ops p S)"
    using ieee_le_number[OF assms(1) ieee_arith_sub_pos[OF assms(2,4)]] by blast
  have nt: "is_number ops (d_sub ops t S)"
    using ieee_le_number[OF assms(1) ieee_arith_sub_pos[OF assms(2) st]] by blast
  from ieee_arith_sub_mono[OF assms(2,5) np nt]
  have sub: "d_le ops (d_sub ops p S) (d_sub ops t S)" .
  have ap: "is_number ops (d_add ops B (d_sub ops p S))"
    using ieee_le_number[OF assms(1) out_ge_base[OF assms(1,2,3,4)]] by blast
  have at: "is_number ops (d_add ops B (d_sub ops t S))"
    using ieee_le_number[OF assms(1) out_ge_base[OF assms(1,2,3) st]] by blast
  from ieee_arith_add_mono[OF assms(2) sub ap at] show ?thesis .
qed

lemma out_position_le:
  assumes "ieee_order ops" and "ieee_arith ops"
    and "d_le ops (d_of_int ops 0) (ts_base editing)"
    and "d_le ops (ts_prev editing) t" and "d_lt ops (seg_start cur) t"
  shows "d_le ops (out_position ops editing cur)
           (d_add ops (ts_base editing) (d_sub ops t (seg_start cur)))"
proof (cases "d_lt ops (seg_start cur) (ts_prev editing)")
  case True
  from out_mono[OF assms(1,2,3) True assms(4)] True show ?thesis
    by (simp add: out_position_def)
next
  case False
  from out_ge_base[OF assms(1,2,3,5)] False show ?thesis
    by (simp add: out_position_def)
qed

lemma editing_filter_frame_inv:
  assumes ord: "ieee_order ops" and ar: "ieee_arith ops"
    and tb: "d_lt ops (d_of_int ops 0) (av_q2d ops (time_base inlink))"
    and inv: "editing_inv ops inlink w"
    and step: "editing_filter_frame ops ff inlink w frame = Some (r, w')"
  shows "editing_inv ops inlink w'"
proof (cases "current (priv w)")
  case Nil
  with step have "w' = w\<lparr>priv := (priv w)\<lparr>frame_out := 0\<rparr>, freed := freed w @ [frame]\<rparr>"
    by (simp add: editing_filter_frame_def editing_discard_def)
  with inv Nil show ?thesis
    by (simp add: editing_inv_def)
next
  case (Cons cur nxt)
  let ?Z = "d_of_int ops 0"
  let ?t = "frame_ts ops inlink frame"
  let ?tb = "av_q2d ops (time_base inlink)"
  let ?B = "ts_base (priv w)"
  let ?P = "ts_prev (priv w)"
  let ?S = "seg_start cur"
  let ?E = "seg_end cur"
  let ?out = "d_add ops ?B (d_sub ops ?t ?S)"
  from inv Cons have srt: "sorted (map pts (sent w))"
    and seg: "d_lt ops ?S ?E" and segs: "\<forall>s \<in> set nxt. d_lt ops (seg_start s) (seg_end s)"
    and Bpos: "d_le ops ?Z ?B" and Pn: "is_number ops ?P"
    and bnd: "\<forall>f \<in> set (sent w).
                \<exists>out. d_to_int ops (d_div ops out ?tb) = Some (pts f)
                      \<and> d_le ops out (out_position ops (priv w) cur)"
    by (simp_all add: editing_inv_def)
  show ?thesis
  proof (cases "d_lt ops ?t ?P")
    case True
    with step Cons have "w' = w\<lparr>freed := freed w @ [frame]\<rparr>"
      by (simp add: editing_filter_frame_def Let_def d_gt_def)
    with inv Cons show ?thesis by (simp add: editing_inv_def out_position_def)
  next
    case notback: False
    show ?thesis
    proof (cases "d_le ops ?E ?t")
      case True
      from step Cons notback True
      have res: "w' = w\<lparr>priv := (priv w)\<lparr>ts_prev := ?t, current := nxt, ts_base := ?out,
                                         frame_out := 0\<rparr>,
                        freed := freed w @ [frame]\<rparr>"
        by (simp add: editing_filter_frame_def editing_discard_def Let_def d_gt_def d_ge_def)
      from ieee_le_number[OF ord True] have tn: "is_number ops ?t" by blast
      from ieee_lt_le_trans[OF ord seg True] have st: "d_lt ops ?S ?t" .
      from ieee_not_lt[OF ord tn Pn notback] have pt: "d_le ops ?P ?t" .
      from out_ge_base[OF ord ar Bpos st] have bo: "d_le ops ?B ?out" .
      from ieee_le_trans[OF ord Bpos bo] have opos: "d_le ops ?Z ?out" .
      from out_position_le[OF ord ar Bpos pt st]
      have po: "d_le ops (out_position ops (priv w) cur) ?out" .
      show ?thesis
      proof (cases nxt)
        case Nil
        with srt show ?thesis unfolding res by (simp add: editing_inv_def)
      next
        case (Cons c2 n2)
        let ?e' = "(priv w)\<lparr>ts_prev := ?t, current := nxt, ts_base := ?out, frame_out := 0\<rparr>"
        have le': "d_le ops ?out (out_position ops ?e' c2)"
        proof (cases "d_lt ops (seg_start c2) ?t")
          case True
          from out_ge_base[OF ord ar opos True] True show ?thesis
            by (simp add: out_position_def)
        next
          case False
          from ieee_le_number[OF ord bo] have "d_le ops ?out ?out"
            by (simp add: is_number_def)
          with False show ?thesis by (simp add: out_position_def)
        qed
        have "\<forall>f \<in> set (sent w).
                \<exists>out. d_to_int ops (d_div ops out ?tb) = Some (pts f)
                      \<and> d_le ops out (out_position ops ?e' c2)"
        proof
          fix f assume "f \<in> set (sent w)"
          with bnd obtain out where o: "d_to_int ops (d_div ops out ?tb) = Some (pts f)"
            "d_le ops out (out_position ops (priv w) cur)" by blast
          from ieee_le_trans[OF ord ieee_le_trans[OF ord o(2) po] le']
          have "d_le ops out (out_position ops ?e' c2)" .
          with o(1) show "\<exists>out. d_to_int ops (d_div ops out ?tb) = Some (pts f)
                      \<and> d_le ops out (out_position ops ?e' c2)" by blast
        qed
        with srt segs opos tn Cons show ?thesis
          unfolding res by (simp add: editing_inv_def)
      qed
    next
      case notend: False
      show ?thesis
      proof (cases "d_le ops ?t ?S")
        case True
        from step Cons notback notend True
        have res: "w' = w\<lparr>priv := (priv w)\<lparr>ts_prev := ?t, frame_out := 0\<rparr>,
                          freed := freed w @ [frame]\<rparr>"
          by (simp add: editing_filter_frame_def editing_discard_def Let_def d_gt_def d_ge_def)
        from ieee_le_number[OF ord True] have tn: "is_number ops ?t" by blast
        from ieee_not_lt[OF ord tn Pn notback] have pt: "d_le ops ?P ?t" .
        from True have nst: "\<not> d_lt ops ?S ?t"
          by (simp add: ieee_lt_iff[OF ord])
        have nsp: "\<not> d_lt ops ?S ?P"
        proof
          assume "d_lt ops ?S ?P"
          from ieee_lt_le_trans[OF ord this pt] nst show False by blast
        qed
        from nst nsp
        have "out_position ops ((priv w)\<lparr>ts_prev := ?t, frame_out := 0\<rparr>) cur
                = out_position ops (priv w) cur"
          by (simp add: out_position_def)
        with srt seg segs Bpos tn bnd Cons show ?thesis
          unfolding res by (simp add: editing_inv_def)
      next
        case inside: False
        from step Cons notback notend inside
        obtain i where conv: "d_to_int ops (d_div ops ?out ?tb) = Some i"
          by (cases "d_to_int ops (d_div ops ?out ?tb)")
             (simp_all add: editing_filter_frame_def Let_def d_gt_def d_ge_def)
        let ?f = "frame\<lparr>pts := i\<rparr>"
        from step Cons notback notend inside conv
        have res: "w' = w\<lparr>priv := (priv w)\<lparr>ts_prev := ?t,
                                          frame_out := (if fst (ff (dst w) ?f) = 0 then 1 else 0)\<rparr>,
                          sent := sent w @ [?f], dst := snd (ff (dst w) ?f)\<rparr>"
          by (auto simp: editing_filter_frame_def Let_def d_gt_def d_ge_def split: prod.splits)
        from ieee_arith_conv_number[OF ar conv] have qn: "is_number ops (d_div ops ?out ?tb)" .
        from ieee_arith_div_number[OF ar qn] have on: "is_number ops ?out" by blast
        from ieee_arith_add_number[OF ar on] have "is_number ops (d_sub ops ?t ?S)" by blast
        from ieee_arith_sub_number[OF ar this]
        have tn: "is_number ops ?t" and sn: "is_number ops ?S" by blast+
        from ieee_not_le[OF ord tn sn inside] have st: "d_lt ops ?S ?t" .
        from ieee_not_lt[OF ord tn Pn notback] have pt: "d_le ops ?P ?t" .
        from out_position_le[OF ord ar Bpos pt st]
        have po: "d_le ops (out_position ops (priv w) cur) ?out" .
        have le_out: "\<exists>out. d_to_int ops (d_div ops out ?tb) = Some (pts f) \<and> d_le ops out ?out"
          and le_i: "pts f \<le> i" if "f \<in> set (sent w)" for f
        proof -
          from bnd that obtain out where o: "d_to_int ops (d_div ops out ?tb) = Some (pts f)"
            "d_le ops out (out_position ops (priv w) cur)" by blast
          from ieee_le_trans[OF ord o(2) po] have oo: "d_le ops out ?out" .
          with o(1) show "\<exists>out. d_to_int ops (d_div ops out ?tb) = Some (pts f)
                               \<and> d_le ops out ?out" by blast
          from ieee_arith_div_mono[OF ar oo tb ieee_arith_conv_number[OF ar o(1)] qn]
          have "d_le ops (d_div ops out ?tb) (d_div ops ?out ?tb)" .
          from ieee_arith_conv_mono[OF ar o(1) conv this] show "pts f \<le> i" .
        qed
        from srt le_i have srt': "sorted (map pts (sent w @ [?f]))"
          by (simp add: sorted_append)
        let ?e' = "(priv w)\<lparr>ts_prev := ?t,
                              frame_out := (if fst (ff (dst w) ?f) = 0 then 1 else 0)\<rparr>"
        from st have pos': "out_position ops ?e' cur = ?out"
          by (simp add: out_position_def)
        from on have "d_le ops ?out ?out" by (simp add: is_number_def)
        with conv have new: "\<exists>out. d_to_int ops (d_div ops out ?tb) = Some (pts ?f)
                                  \<and> d_le ops out ?out"
          by auto
        from srt' seg segs Bpos tn le_out new Cons show ?thesis
          unfolding res by (simp add: editing_inv_def pos')
      qed
    qed
  qed
qed

lemma editing_deliver_inv:
  assumes "ieee_order ops" and "ieee_arith ops"
    and "d_lt ops (d_of_int ops 0) (av_q2d ops (time_base inlink))"
  shows "editing_inv ops inlink w \<Longrightarrow> editing_deliver ops ff inlink w frames = Some (rets, w')
           \<Longrightarrow> editing_inv ops inlink w'"
proof (induction frames arbitrary: w rets)
  case Nil
  then show ?case by simp
next
  case (Cons frame frames)
  from Cons.prems(2) obtain r w1 rs where
    s: "editing_filter_frame ops ff inlink w frame = Some (r, w1)"
    and d: "editing_deliver ops ff inlink w1 frames = Some (rs, w')"
    by (auto split: option.splits prod.splits)
  from editing_filter_frame_inv[OF assms Cons.prems(1) s]
  have "editing_inv ops inlink w1" .
  from Cons.IH[OF this d] show ?case .
qed

lemma double_to_int64_mono:
  assumes "double_to_int64 x = Some i" and "double_to_int64 y = Some j" and "x \<le> y"
  shows "i \<le> j"
proof -
  from assms(1) have i: "i = (if x \<ge> 0 then \<lfloor>x\<rfloor> else \<lceil>x\<rceil>)"
    by (simp add: double_to_int64_def split: if_splits)
  from assms(2) have j: "j = (if y \<ge> 0 then \<lfloor>y\<rfloor> else \<lceil>y\<rceil>)"
    by (simp add: double_to_int64_def split: if_splits)
  consider "0 \<le> x" | "x < 0" "0 \<le> y" | "y < 0" using assms(3) by linarith
  then show ?thesis
  proof cases
    case 1
    with assms(3) i j show ?thesis by (simp add: floor_mono)
  next
    case 2
    then have "\<lceil>x\<rceil> \<le> 0" "0 \<le> \<lfloor>y\<rfloor>" by simp_all
    then have "\<lceil>x\<rceil> \<le> \<lfloor>y\<rfloor>" by linarith
    with 2 i j show ?thesis by simp
  next
    case 3
    with assms(3) i j show ?thesis by (simp add: ceiling_mono)
  qed
qed

lemma real_ops_arith: "ieee_arith real_ops"
proof -
  have "\<forall>x y i j. double_to_int64 x = Some i \<and> double_to_int64 y = Some j \<and> x \<le> y
                   \<longrightarrow> i \<le> j"
    using double_to_int64_mono by blast
  moreover have "\<forall>x y c :: real. x \<le> y \<and> 0 < c \<longrightarrow> x / c \<le> y / c"
    by (simp add: divide_right_mono)
  ultimately show ?thesis
    unfolding ieee_arith_def is_number_def by (simp add: real_ops_def)
qed

text \<open>The doubles with special values satisfy the laws of the arithmetic too.\<close>

lemma xd_sub_pos: "xd_lt c a \<Longrightarrow> xd_le (Finite 0) (xd_sub a c)"
  by (cases a; cases c) (simp_all add: xd_lt_def xd_sub_def)

lemma xd_sub_mono:
  "xd_le a b \<Longrightarrow> xd_le (xd_sub a c) (xd_sub a c) \<Longrightarrow> xd_le (xd_sub b c) (xd_sub b c)
     \<Longrightarrow> xd_le (xd_sub a c) (xd_sub b c)"
  by (cases a; cases b; cases c) (simp_all add: xd_sub_def)

lemma xd_add_ge: "xd_le (Finite 0) a \<Longrightarrow> xd_le (Finite 0) x \<Longrightarrow> xd_le a (xd_add a x)"
  by (cases a; cases x) simp_all

lemma xd_add_mono:
  "xd_le x y \<Longrightarrow> xd_le (xd_add a x) (xd_add a x) \<Longrightarrow> xd_le (xd_add a y) (xd_add a y)
     \<Longrightarrow> xd_le (xd_add a x) (xd_add a y)"
  by (cases a; cases x; cases y) simp_all

lemma xd_div_mono:
  "xd_le x y \<Longrightarrow> xd_lt (Finite 0) c \<Longrightarrow> xd_le (xd_div x c) (xd_div x c)
     \<Longrightarrow> xd_le (xd_div y c) (xd_div y c) \<Longrightarrow> xd_le (xd_div x c) (xd_div y c)"
  by (cases x; cases y; cases c) (simp_all add: xd_lt_def divide_right_mono)

lemma xd_add_number: "xd_le (xd_add a b) (xd_add a b) \<Longrightarrow> xd_le a a \<and> xd_le b b"
  by (cases a; cases b) simp_all

lemma xd_sub_number: "xd_le (xd_sub a b) (xd_sub a b) \<Longrightarrow> xd_le a a \<and> xd_le b b"
  by (cases a; cases b) (simp_all add: xd_sub_def)

lemma xd_div_number: "xd_le (xd_div a b) (xd_div a b) \<Longrightarrow> xd_le a a \<and> xd_le b b"
  by (cases a; cases b) simp_all

lemma xd_to_int_number: "xd_to_int x = Some i \<Longrightarrow> xd_le x x"
  by (cases x) simp_all

lemma xd_to_int_mono:
  "xd_to_int x = Some i \<Longrightarrow> xd_to_int y = Some j \<Longrightarrow> xd_le x y \<Longrightarrow> i \<le> j"
  by (cases x; cases y) (simp_all add: double_to_int64_mono)

lemma xdouble_ops_arith: "ieee_arith xdouble_ops"
proof -
  have t1: "xd_le (Finite (real_of_int 0)) (Finite (real_of_int 0))" by simp
  have t2: "\<forall>a c. xd_lt c a \<longrightarrow> xd_le (Finite (real_of_int 0)) (xd_sub a c)"
    using xd_sub_pos by simp
  have t3: "\<forall>a b c. xd_le a b \<and> xd_le (xd_sub a c) (xd_sub a c)
               \<and> xd_le (xd_sub b c) (xd_sub b c) \<longrightarrow> xd_le (xd_sub a c) (xd_sub b c)"
    using xd_sub_mono by blast
  have t4: "\<forall>a x. xd_le (Finite (real_of_int 0)) a \<and> xd_le (Finite (real_of_int 0)) x
               \<longrightarrow> xd_le a (xd_add a x)"
    using xd_add_ge by simp
  have t5: "\<forall>a x y. xd_le x y \<and> xd_le (xd_add a x) (xd_add a x)
               \<and> xd_le (xd_add a y) (xd_add a y) \<longrightarrow> xd_le (xd_add a x) (xd_add a y)"
    using xd_add_mono by blast
  have t6: "\<forall>x y c. xd_le x y \<and> xd_lt (Finite (real_of_int 0)) c
               \<and> xd_le (xd_div x c) (xd_div x c) \<and> xd_le (xd_div y c) (xd_div y c)
               \<longrightarrow> xd_le (xd_div x c) (xd_div y c)"
    using xd_div_mono by simp
  have t7: "\<forall>a b. xd_le (xd_add a b) (xd_add a b) \<longrightarrow> xd_le a a \<and> xd_le b b"
    using xd_add_number by blast
  have t8: "\<forall>a b. xd_le (xd_sub a b) (xd_sub a b) \<longrightarrow> xd_le a a \<and> xd_le b b"
    using xd_sub_number by blast
  have t9: "\<forall>a b. xd_le (xd_div a b) (xd_div a b) \<longrightarrow> xd_le a a \<and> xd_le b b"
    using xd_div_number by blast
  have t10: "\<forall>x i. xd_to_int x = Some i \<longrightarrow> xd_le x x"
    using xd_to_int_number by blast
  have t11: "\<forall>x y i j. xd_to_int x = Some i \<and> xd_to_int y = Some j \<and> xd_le x y \<longrightarrow> i \<le> j"
    using xd_to_int_mono by blast
  show ?thesis
    unfolding ieee_arith_def is_number_def xdouble_ops_sel
    by (intro conjI t1 t2 t3 t4 t5 t6 t7 t8 t9 t10 t11)
qed

text \<open>
  Claim C3 as stated fails: with the two segments of the scenario and frames at 1.5, 2.5
  and 3.5 seconds, the frame at 3.5 would sit at 1.5 on a contiguous timeline; the selector
  sends it at 2.0.
\<close>

theorem selector_contiguity_counterexample:
  "contiguous_out ex_two_segments (frame_ts real_ops ex_half_link (ex_frame 7)) = Some (3 / 2)
   \<and> editing_deliver real_ops (ff_const 0) ex_half_link ex_selector
         [ex_frame 3, ex_frame 5, ex_frame 7]
       = Some ([0, 0, 0],
               ex_selector\<lparr>priv := (priv ex_selector)
                               \<lparr>ts_base := 3 / 2, ts_prev := 7 / 2, frame_out := 1,
                                current := [\<lparr>seg_start = 3, seg_end = 4\<rparr>]\<rparr>,
                           freed := [ex_frame 5],
                           sent := [ex_frame 1, ex_frame 4]\<rparr>)
   \<and> map (frame_ts real_ops ex_half_link) [ex_frame 1, ex_frame 4] = [1 / 2, 2]
   \<and> (2 :: real) \<noteq> 3 / 2"
  by (simp add: editing_defs sel_ex_defs)

text \<open>
  Claim C3, amended. For a valid segment list, a selector as \<^verbatim>\<open>init\<close> leaves it, a positive
  time base and any sequence of arriving frames on which every conversion of an output
  timestamp to ticks is defined, the \<open>pts\<close> of the frames sent are non-decreasing. The
  output is not contiguous across a segment boundary: a frame at time \<open>t\<close> at or after
  the end of the current segment moves to the next segment, sends nothing and sets
  \<open>ts_base\<close> to its own candidate output timestamp \<open>ts_base + (t - start)\<close>, not to the
  end of the output of the closed segment. A frame at time \<open>t\<close> strictly inside the
  current segment is sent with \<open>pts\<close> \<open>(ts_base + (t - start)) / time_base\<close> converted to
  \<^verbatim>\<open>int64_t\<close>. All arithmetic is the one of the doubles.
\<close>

theorem selector_output_order:
  fixes ff :: "'d filter_frame_fn" and ops :: "'f double_ops"
  assumes "ieee_order ops" and "ieee_arith ops"
    and "intervals_accepted ops (current editing)"
    and "ts_base editing = d_of_int ops 0" and "ts_prev editing = d_of_int ops 0"
    and "d_lt ops (d_of_int ops 0) (av_q2d ops (time_base inlink))"
    and "editing_deliver ops ff inlink \<lparr>priv = editing, freed = fr, sent = [], dst = d\<rparr> frames
           = Some (rets, w')"
  shows "sorted (map pts (sent w'))
       \<and> (\<forall>w cur nxt frame.
             current (priv w) = cur # nxt
             \<and> \<not> d_gt ops (ts_prev (priv w)) (frame_ts ops inlink frame)
             \<and> d_ge ops (frame_ts ops inlink frame) (seg_end cur)
           \<longrightarrow> editing_filter_frame ops ff inlink w frame
                 = Some (0, w\<lparr>priv := (priv w)
                                  \<lparr>ts_prev := frame_ts ops inlink frame,
                                   current := nxt,
                                   ts_base := d_add ops (ts_base (priv w))
                                                (d_sub ops (frame_ts ops inlink frame)
                                                           (seg_start cur)),
                                   frame_out := 0\<rparr>,
                               freed := freed w @ [frame]\<rparr>))
       \<and> (\<forall>w cur nxt frame i.
             current (priv w) = cur # nxt
             \<and> \<not> d_gt ops (ts_prev (priv w)) (frame_ts ops inlink frame)
             \<and> \<not> d_ge ops (frame_ts ops inlink frame) (seg_end cur)
             \<and> \<not> d_le ops (frame_ts ops inlink frame) (seg_start cur)
             \<and> d_to_int ops
                  (d_div ops (d_add ops (ts_base (priv w))
                                (d_sub ops (frame_ts ops inlink frame) (seg_start cur)))
                             (av_q2d ops (time_base inlink))) = Some i
           \<longrightarrow> editing_filter_frame ops ff inlink w frame
                 = Some (fst (ff (dst w) (frame\<lparr>pts := i\<rparr>)),
                         w\<lparr>priv := (priv w)
                               \<lparr>ts_prev := frame_ts ops inlink frame,
                                frame_out := (if fst (ff (dst w) (frame\<lparr>pts := i\<rparr>)) = 0
                                              then 1 else 0)\<rparr>,
                           sent := sent w @ [frame\<lparr>pts := i\<rparr>],
                           dst := snd (ff (dst w) (frame\<lparr>pts := i\<rparr>))\<rparr>))"
proof (intro conjI allI impI)
  let ?w = "\<lparr>priv = editing, freed = fr, sent = [], dst = d\<rparr>"
  from assms(3) have "\<forall>s \<in> set (current editing). d_lt ops (seg_start s) (seg_end s)"
    by (simp add: intervals_accepted_def)
  moreover from assms(4) ieee_arith_zero[OF assms(2)]
  have "d_le ops (d_of_int ops 0) (ts_base editing)" by simp
  moreover from assms(5) ieee_arith_zero[OF assms(2)]
  have "is_number ops (ts_prev editing)" by (simp add: is_number_def)
  ultimately have "editing_inv ops inlink ?w"
    by (simp add: editing_inv_def split: list.splits)
  from editing_deliver_inv[OF assms(1,2,6) this assms(7)]
  show "sorted (map pts (sent w'))"
    by (simp add: editing_inv_def)
next
  fix w :: "('f, 'd) editing_world" and cur nxt and frame :: AVFrame
  assume "current (priv w) = cur # nxt
             \<and> \<not> d_gt ops (ts_prev (priv w)) (frame_ts ops inlink frame)
             \<and> d_ge ops (frame_ts ops inlink frame) (seg_end cur)"
  then show "editing_filter_frame ops ff inlink w frame
                 = Some (0, w\<lparr>priv := (priv w)
                                  \<lparr>ts_prev := frame_ts ops inlink frame,
                                   current := nxt,
                                   ts_base := d_add ops (ts_base (priv w))
                                                (d_sub ops (frame_ts ops inlink frame)
                                                           (seg_start cur)),
                                   frame_out := 0\<rparr>,
                               freed := freed w @ [frame]\<rparr>)"
    by (simp add: editing_filter_frame_def editing_discard_def Let_def)
next
  fix w :: "('f, 'd) editing_world" and cur nxt and frame :: AVFrame and i
  assume "current (priv w) = cur # nxt
             \<and> \<not> d_gt ops (ts_prev (priv w)) (frame_ts ops inlink frame)
             \<and> \<not> d_ge ops (frame_ts ops inlink frame) (seg_end cur)
             \<and> \<not> d_le ops (frame_ts ops inlink frame) (seg_start cur)
             \<and> d_to_int ops
                  (d_div ops (d_add ops (ts_base (priv w))
                                (d_sub ops (frame_ts ops inlink frame) (seg_start cur)))
                             (av_q2d ops (time_base inlink))) = Some i"
  then show "editing_filter_frame ops ff inlink w frame
                 = Some (fst (ff (dst w) (frame\<lparr>pts := i\<rparr>)),
                         w\<lparr>priv := (priv w)
                               \<lparr>ts_prev := frame_ts ops inlink frame,
                                frame_out := (if fst (ff (dst w) (frame\<lparr>pts := i\<rparr>)) = 0
                                              then 1 else 0)\<rparr>,
                           sent := sent w @ [frame\<lparr>pts := i\<rparr>],
                           dst := snd (ff (dst w) (frame\<lparr>pts := i\<rparr>))\<rparr>)"
    by (simp add: editing_filter_frame_def Let_def split: prod.splits)
qed

theorem selector_output_order_witness:
  "ieee_order real_ops \<and> ieee_arith real_ops
   \<and> intervals_accepted real_ops (current (priv ex_selector))
   \<and> ts_base (priv ex_selector) = d_of_int real_ops 0
   \<and> ts_prev (priv ex_selector) = d_of_int real_ops 0
   \<and> d_lt real_ops (d_of_int real_ops 0) (av_q2d real_ops (time_base ex_half_link))
   \<and> editing_deliver real_ops (ff_const 0) ex_half_link
        \<lparr>priv = priv ex_selector, freed = [], sent = [], dst = ()\<rparr>
        [ex_frame 1, ex_frame 3, ex_frame 5, ex_frame 7, ex_frame 9]
       = Some ([0, 0, 0, 0, 0],
               ex_selector\<lparr>priv := (priv ex_selector)
                               \<lparr>ts_base := 3, ts_prev := 9 / 2, frame_out := 0,
                                current := []\<rparr>,
                           freed := [ex_frame 1, ex_frame 5, ex_frame 9],
                           sent := [ex_frame 1, ex_frame 4]\<rparr>)
   \<and> sorted (map pts [ex_frame 1, ex_frame 4])"
proof -
  have h3: "intervals_accepted real_ops (current (priv ex_selector))"
    by (simp add: intervals_accepted_def sel_ex_defs d_ge_def real_ops_def)
  have h4: "ts_base (priv ex_selector) = d_of_int real_ops 0"
    and h5: "ts_prev (priv ex_selector) = d_of_int real_ops 0"
    by (simp_all add: sel_ex_defs real_ops_def)
  have h6: "d_lt real_ops (d_of_int real_ops 0) (av_q2d real_ops (time_base ex_half_link))"
    by (simp add: ex_half_link_def av_q2d_def real_ops_def)
  have h7: "editing_deliver real_ops (ff_const 0) ex_half_link
        \<lparr>priv = priv ex_selector, freed = [], sent = [], dst = ()\<rparr>
        [ex_frame 1, ex_frame 3, ex_frame 5, ex_frame 7, ex_frame 9]
       = Some ([0, 0, 0, 0, 0],
               ex_selector\<lparr>priv := (priv ex_selector)
                               \<lparr>ts_base := 3, ts_prev := 9 / 2, frame_out := 0,
                                current := []\<rparr>,
                           freed := [ex_frame 1, ex_frame 5, ex_frame 9],
                           sent := [ex_frame 1, ex_frame 4]\<rparr>)"
    by (simp add: editing_defs sel_ex_defs)
  from selector_output_order[OF real_ops_order real_ops_arith h3 h4 h5 h6 h7]
  have "sorted (map pts [ex_frame 1, ex_frame 4])" by simp
  with real_ops_order real_ops_arith h3 h4 h5 h6 h7 show ?thesis by blast
qed

end
